(* ===== verification/Async_Core.thy ===== *)
theory Async_Core
  imports Prelude
begin

text \<open>
  What the stream and server objects share: the synchronisation primitives they are built from,
  runs of a system of interleaved tasks, and the contracts of a system whose tasks share one
  mutex (\<open>guard_protocol\<close>) and one cancellation token (\<open>cancel_protocol\<close>).

  The primitives come from \<^verbatim>\<open>tokio\<close> and \<^verbatim>\<open>tokio-util\<close>, so they are parameters (a record of
  operations) and what the code relies on is \<open>tokio_ok\<close>: a mutex that was locked cannot be
  locked again until its guard is dropped, and a cancelled token stays cancelled.
\<close>

section \<open>Mutex and cancellation token\<close>

record ('mx, 'tok) tokio =
  mutex_new :: 'mx
  try_lock :: "'mx \<Rightarrow> 'mx option"
  unlock :: "'mx \<Rightarrow> 'mx"
  token_new :: 'tok
  token_cancel :: "'tok \<Rightarrow> 'tok"
  is_cancelled :: "'tok \<Rightarrow> bool"

definition locked :: "('mx, 'tok) tokio \<Rightarrow> 'mx \<Rightarrow> bool" where
  "locked T m \<longleftrightarrow> try_lock T m = None"

definition tokio_ok :: "('mx, 'tok) tokio \<Rightarrow> bool" where
  "tokio_ok T \<longleftrightarrow>
     \<not> locked T (mutex_new T) \<and>
     (\<forall>m m'. try_lock T m = Some m' \<longrightarrow> locked T m') \<and>
     (\<forall>m. locked T m \<longrightarrow> \<not> locked T (unlock T m)) \<and>
     \<not> is_cancelled T (token_new T) \<and>
     (\<forall>t. is_cancelled T (token_cancel T t))"

text \<open>A reference implementation of the primitives: both are one bit.\<close>

definition tokio_bits :: "(bool, bool) tokio" where
  "tokio_bits = \<lparr>mutex_new = False,
     try_lock = (\<lambda>m. if m then None else Some True),
     unlock = (\<lambda>_. False),
     token_new = False, token_cancel = (\<lambda>_. True), is_cancelled = id\<rparr>"

lemma tokio_bits_ok: "tokio_ok tokio_bits"
  by (simp add: tokio_ok_def tokio_bits_def locked_def)

lemma tokio_bits_simps [simp]:
  "mutex_new tokio_bits = False"
  "try_lock tokio_bits m = (if m then None else Some True)"
  "unlock tokio_bits m = False"
  "token_new tokio_bits = False"
  "token_cancel tokio_bits t = True"
  "is_cancelled tokio_bits t = t"
  "locked tokio_bits m = m"
  by (simp_all add: tokio_bits_def locked_def)

lemma try_lock_locked: "tokio_ok T \<Longrightarrow> try_lock T m = Some m' \<Longrightarrow> locked T m'"
  by (simp add: tokio_ok_def)

lemma try_lock_free: "try_lock T m = Some m' \<Longrightarrow> \<not> locked T m"
  by (simp add: locked_def)

lemma not_locked_obtain:
  assumes "\<not> locked T m"
  obtains m' where "try_lock T m = Some m'"
  using assms by (auto simp: locked_def)

lemma unlock_free: "tokio_ok T \<Longrightarrow> locked T m \<Longrightarrow> \<not> locked T (unlock T m)"
  by (simp add: tokio_ok_def)

lemma tokio_new: "tokio_ok T \<Longrightarrow> \<not> locked T (mutex_new T) \<and> \<not> is_cancelled T (token_new T)"
  by (simp add: tokio_ok_def)

lemma token_cancelled: "tokio_ok T \<Longrightarrow> is_cancelled T (token_cancel T t)"
  by (simp add: tokio_ok_def)

section \<open>Runs of an event-driven system\<close>

fun run :: "('e \<Rightarrow> 's \<Rightarrow> 's option) \<Rightarrow> 's \<Rightarrow> 'e list \<Rightarrow> 's option" where
  "run step s [] = Some s"
| "run step s (e # es) = (case step e s of None \<Rightarrow> None | Some t \<Rightarrow> run step t es)"

inductive reach :: "('e \<Rightarrow> 's \<Rightarrow> 's option) \<Rightarrow> 's \<Rightarrow> 's \<Rightarrow> bool" for step where
  reach_refl [simp, intro!]: "reach step s s"
| reach_step: "reach step s t \<Longrightarrow> step e t = Some u \<Longrightarrow> reach step s u"

lemma reach_trans: "reach step s t \<Longrightarrow> reach step t u \<Longrightarrow> reach step s u"
  by (rotate_tac, induction rule: reach.induct) (auto intro: reach_step)

lemma run_append: "run step s (es @ fs) = Option.bind (run step s es) (\<lambda>t. run step t fs)"
  by (induction es arbitrary: s) (auto split: option.splits)

lemma run_reach: "run step s es = Some t \<Longrightarrow> reach step s t"
proof (induction es arbitrary: t rule: rev_induct)
  case (snoc e es)
  then obtain u where u: "run step s es = Some u" "run step u [e] = Some t"
    by (auto simp: run_append bind_eq_Some_conv)
  with snoc.IH have "reach step s u" by simp
  with u(2) show ?case by (auto split: option.splits intro: reach_step)
qed simp

lemma reach_run: "reach step s t \<Longrightarrow> \<exists>es. run step s es = Some t"
proof (induction rule: reach.induct)
  case (reach_refl s)
  have "run step s [] = Some s" by simp
  then show ?case ..
next
  case (reach_step s t e u)
  then obtain es where "run step s es = Some t" by blast
  with reach_step have "run step s (es @ [e]) = Some u" by (simp add: run_append)
  then show ?case ..
qed

text \<open>
  Evaluation of a run goes one event at a time, so that a step is only computed on a state that
  is already known.
\<close>

lemma run_Cons_eval [simp]: "step e s = Some t \<Longrightarrow> run step s (e # es) = run step t es"
  by simp

declare run.simps(2) [simp del]

lemma run_Cons_SomeE:
  assumes "run step s (e # es) = Some u"
  obtains t where "step e s = Some t" "run step t es = Some u"
  using assms by (auto simp: run.simps(2) split: option.splits)

text \<open>The invariant rule.\<close>

lemma reach_invariant:
  assumes "reach step s t" "I s" "\<And>s e t. I s \<Longrightarrow> step e s = Some t \<Longrightarrow> I t"
  shows "I t"
  using assms by (induction rule: reach.induct) auto

lemma run_invariant:
  assumes "run step s es = Some t" "I s" "\<And>s e t. I s \<Longrightarrow> step e s = Some t \<Longrightarrow> I t"
  shows "I t"
  using run_reach [OF assms(1)] assms(2,3) by (rule reach_invariant [where I = I])

section \<open>Tasks sharing a mutex\<close>

text \<open>
  One step is taken by one task: it keeps the guard as it is, takes a free lock, or drops its
  guard. \<open>env_ok\<close> is what is assumed of the primitives.
\<close>

locale guard_protocol =
  fixes env_ok :: bool
    and step :: "'e \<Rightarrow> 's \<Rightarrow> 's option"
    and start :: "'s \<Rightarrow> bool"
    and holds :: "'s \<Rightarrow> nat \<Rightarrow> bool"
    and is_locked :: "'s \<Rightarrow> bool"
  assumes start_free: "env_ok \<Longrightarrow> start s \<Longrightarrow> \<not> is_locked s \<and> \<not> holds s i"
    and step_guard: "env_ok \<Longrightarrow> step e s = Some t \<Longrightarrow>
      \<exists>i. (\<forall>j. j \<noteq> i \<longrightarrow> holds t j = holds s j) \<and>
          (holds t i = holds s i \<and> is_locked t = is_locked s
           \<or> \<not> holds s i \<and> \<not> is_locked s \<and> holds t i \<and> is_locked t
           \<or> holds s i \<and> \<not> holds t i \<and> (is_locked s \<longrightarrow> \<not> is_locked t))"
begin

definition guard_inv :: "'s \<Rightarrow> bool" where
  "guard_inv s \<longleftrightarrow> (is_locked s \<longleftrightarrow> (\<exists>i. holds s i)) \<and> (\<forall>i j. holds s i \<longrightarrow> holds s j \<longrightarrow> i = j)"

lemma guard_inv_start: "env_ok \<Longrightarrow> start s \<Longrightarrow> guard_inv s"
  using start_free by (auto simp: guard_inv_def)

lemma guard_inv_step:
  assumes "env_ok" "guard_inv s" "step e s = Some t"
  shows "guard_inv t"
proof -
  from step_guard [OF assms(1,3)] obtain i
    where frame: "\<forall>j. j \<noteq> i \<longrightarrow> holds t j = holds s j"
      and c: "holds t i = holds s i \<and> is_locked t = is_locked s
           \<or> \<not> holds s i \<and> \<not> is_locked s \<and> holds t i \<and> is_locked t
           \<or> holds s i \<and> \<not> holds t i \<and> (is_locked s \<longrightarrow> \<not> is_locked t)" by blast
  from c show ?thesis
  proof (elim disjE)
    assume "holds t i = holds s i \<and> is_locked t = is_locked s"
    with frame have "holds t = holds s" by (intro ext) metis
    with assms(2) \<open>holds t i = holds s i \<and> is_locked t = is_locked s\<close> show ?thesis
      by (simp add: guard_inv_def)
  next
    assume a: "\<not> holds s i \<and> \<not> is_locked s \<and> holds t i \<and> is_locked t"
    with assms(2) have "\<forall>j. \<not> holds s j" by (simp add: guard_inv_def)
    with a frame show ?thesis by (metis guard_inv_def)
  next
    assume a: "holds s i \<and> \<not> holds t i \<and> (is_locked s \<longrightarrow> \<not> is_locked t)"
    with assms(2) have "\<forall>j. holds s j \<longrightarrow> j = i" "is_locked s" by (auto simp: guard_inv_def)
    with a frame show ?thesis by (metis guard_inv_def)
  qed
qed

lemma guard_inv_reach: "env_ok \<Longrightarrow> start s \<Longrightarrow> reach step s t \<Longrightarrow> guard_inv t"
  by (rule reach_invariant [where I = guard_inv]) (auto intro: guard_inv_start guard_inv_step)

lemma mutual_exclusion:
  "env_ok \<Longrightarrow> start s \<Longrightarrow> reach step s t \<Longrightarrow> holds t i \<Longrightarrow> holds t j \<Longrightarrow> i = j"
  using guard_inv_reach by (auto simp: guard_inv_def)

lemma locked_iff_held:
  "env_ok \<Longrightarrow> start s \<Longrightarrow> reach step s t \<Longrightarrow> is_locked t \<longleftrightarrow> (\<exists>i. holds t i)"
  using guard_inv_reach by (auto simp: guard_inv_def)

end

text \<open>
  A token on top of the mutex: cancellation is never undone, and a task that is \<open>doomed\<close> (it can
  only be heading for the cancelled outcome) stays so once the token is cancelled.
\<close>

locale cancel_protocol = guard_protocol env_ok step start holds is_locked
  for env_ok and step :: "'e \<Rightarrow> 's \<Rightarrow> 's option" and start and holds and is_locked +
  fixes cancelled :: "'s \<Rightarrow> bool" and doomed :: "'s \<Rightarrow> nat \<Rightarrow> bool"
  assumes cancelled_step: "env_ok \<Longrightarrow> step e s = Some t \<Longrightarrow> cancelled s \<Longrightarrow> cancelled t"
    and doomed_step:
      "env_ok \<Longrightarrow> step e s = Some t \<Longrightarrow> cancelled s \<Longrightarrow> doomed s i \<Longrightarrow> doomed t i"
begin

lemma cancelled_reach: "env_ok \<Longrightarrow> reach step s t \<Longrightarrow> cancelled s \<Longrightarrow> cancelled t"
  by (rule reach_invariant [where I = cancelled]) (auto intro: cancelled_step)

lemma doomed_reach:
  assumes "env_ok" "reach step s t" "cancelled s" "doomed s i"
  shows "doomed t i"
proof -
  have "cancelled t \<and> doomed t i"
    by (rule reach_invariant [OF assms(2), where I = "\<lambda>u. cancelled u \<and> doomed u i"])
      (use assms in \<open>auto intro: cancelled_step doomed_step\<close>)
  then show ?thesis ..
qed

end

section \<open>Work left for another task\<close>

text \<open>
  A canceller that finds the lock held leaves its work to whoever \<open>owes\<close> it: a holder of the
  guard, or a task on its way to doing it. A debt is passed on, paid (\<open>sent\<close>), lost in a \<open>late\<close>
  event, or dropped by a task that saw the lock held, and then the holder has it.
\<close>

locale delivery_protocol = guard_protocol env_ok step start holds is_locked
  for env_ok and step :: "'e \<Rightarrow> 's \<Rightarrow> 's option" and start and holds and is_locked +
  fixes cancelled :: "'s \<Rightarrow> bool" and owes :: "'s \<Rightarrow> nat \<Rightarrow> bool"
    and sent :: "'s \<Rightarrow> bool" and late :: "'e \<Rightarrow> 's \<Rightarrow> bool"
  assumes start_live: "env_ok \<Longrightarrow> start s \<Longrightarrow> \<not> cancelled s"
    and holds_owes: "holds s i \<Longrightarrow> owes s i"
    and sent_step: "step e s = Some t \<Longrightarrow> sent s \<Longrightarrow> sent t"
    and cancel_owes: "env_ok \<Longrightarrow> step e s = Some t \<Longrightarrow> \<not> cancelled s \<Longrightarrow> cancelled t \<Longrightarrow> \<exists>i. owes t i"
    and owes_step: "env_ok \<Longrightarrow> step e s = Some t \<Longrightarrow> \<not> late e s \<Longrightarrow> cancelled s \<Longrightarrow> \<not> sent t \<Longrightarrow>
      owes s i \<Longrightarrow> owes t i \<or> is_locked s \<and> \<not> holds s i \<and> (\<forall>j. holds t j = holds s j)"
begin

definition timely :: "'e \<Rightarrow> 's \<Rightarrow> 's option" where
  "timely e s = (if late e s then None else step e s)"

definition debt_inv :: "'s \<Rightarrow> bool" where
  "debt_inv s \<longleftrightarrow> (cancelled s \<longrightarrow> sent s \<or> (\<exists>i. owes s i))"

lemma timelyD: "timely e s = Some t \<Longrightarrow> step e s = Some t \<and> \<not> late e s"
  by (simp add: timely_def split: if_splits)

lemma reach_timely: "reach timely s t \<Longrightarrow> reach step s t"
  by (induction rule: reach.induct) (auto intro: reach_step dest: timelyD)

lemma debt_inv_step:
  assumes ok: "env_ok" and guard: "guard_inv s" and inv: "debt_inv s" and st: "timely e s = Some t"
  shows "debt_inv t"
proof -
  have st': "step e s = Some t" and late: "\<not> late e s" using timelyD [OF st] by auto
  have "\<exists>i. owes t i" if c: "cancelled t" and n: "\<not> sent t"
  proof (cases "cancelled s")
    case True
    with inv n sent_step [OF st'] obtain i where i: "owes s i" by (auto simp: debt_inv_def)
    from owes_step [OF ok st' late True n i] show ?thesis
    proof (elim disjE conjE)
      assume "is_locked s" "\<forall>j. holds t j = holds s j"
      with guard obtain k where "holds t k" by (auto simp: guard_inv_def)
      then show ?thesis using holds_owes by blast
    qed blast
  qed (rule cancel_owes [OF ok st' _ c])
  then show ?thesis by (auto simp: debt_inv_def)
qed

lemma debt_inv_reach:
  assumes ok: "env_ok" and start: "start s" and r: "reach timely s t"
  shows "debt_inv t"
proof -
  have "guard_inv t \<and> debt_inv t"
  proof (rule reach_invariant [OF r, where I = "\<lambda>u. guard_inv u \<and> debt_inv u"])
    show "guard_inv s \<and> debt_inv s"
      using guard_inv_start [OF ok start] start_live [OF ok start] by (simp add: debt_inv_def)
    show "guard_inv v \<and> debt_inv v" if "guard_inv u \<and> debt_inv u" "timely e u = Some v" for u e v
      using that guard_inv_step [OF ok] debt_inv_step [OF ok] timelyD by blast
  qed
  then show ?thesis ..
qed

lemma delivered:
  "env_ok \<Longrightarrow> start s \<Longrightarrow> reach timely s t \<Longrightarrow> cancelled t \<Longrightarrow> \<forall>i. \<not> owes t i \<Longrightarrow> sent t"
  using debt_inv_reach by (auto simp: debt_inv_def)

end

section \<open>Finishing without the peer\<close>

text \<open>
  In a cancelled system, a busy task that has the guard, or finds the lock free, has a step of
  its own that needs no answer from the peer and leaves less work.
\<close>

locale progress_protocol = cancel_protocol env_ok step start holds is_locked cancelled doomed
  for env_ok and step :: "'e \<Rightarrow> 's \<Rightarrow> 's option" and start and holds and is_locked
    and cancelled and doomed +
  fixes quiet :: "'s \<Rightarrow> nat \<Rightarrow> bool" and work :: "'s \<Rightarrow> nat" and fin :: "'s \<Rightarrow> bool"
    and alone :: "'e \<Rightarrow> bool"
  assumes start_fin: "start s \<Longrightarrow> fin s"
    and fin_step: "step e s = Some t \<Longrightarrow> fin s \<Longrightarrow> fin t"
    and holder_busy: "holds s i \<Longrightarrow> \<not> quiet s i"
    and enabled: "env_ok \<Longrightarrow> fin s \<Longrightarrow> cancelled s \<Longrightarrow> \<not> quiet s i \<Longrightarrow> holds s i \<or> \<not> is_locked s \<Longrightarrow>
      \<exists>e t. alone e \<and> step e s = Some t \<and> work t < work s"
begin

lemma fin_reach: "start s \<Longrightarrow> reach step s t \<Longrightarrow> fin t"
  by (rule reach_invariant [where I = fin]) (auto intro: start_fin fin_step)

lemma progress:
  assumes "env_ok" "guard_inv s" "fin s" "cancelled s" "\<not> quiet s j"
  shows "\<exists>e t. alone e \<and> step e s = Some t \<and> work t < work s"
proof (cases "is_locked s")
  case True
  with assms(2) obtain k where "holds s k" by (auto simp: guard_inv_def)
  with enabled [OF assms(1,3,4) holder_busy] show ?thesis by blast
next
  case False
  with enabled [OF assms(1,3,4,5)] show ?thesis by blast
qed

lemma finishes:
  assumes ok: "env_ok" and start: "start s0" and r: "reach step s0 s" and c: "cancelled s"
  shows "\<exists>es t. run step s es = Some t \<and> (\<forall>e \<in> set es. alone e) \<and> (\<forall>i. quiet t i)"
  using r c
proof (induction "work s" arbitrary: s rule: less_induct)
  case less
  show ?case
  proof (cases "\<forall>i. quiet s i")
    case True
    then show ?thesis by (intro exI [of _ "[]"] exI [of _ s]) simp
  next
    case False
    with progress [OF ok guard_inv_reach [OF ok start less.prems(1)] fin_reach [OF start less.prems(1)]
        less.prems(2)]
    obtain e u where u: "alone e" "step e s = Some u" "work u < work s" by blast
    from less.hyps [OF u(3) reach_step [OF less.prems(1) u(2)] cancelled_step [OF ok u(2) less.prems(2)]]
    obtain es t where "run step u es = Some t" "\<forall>e \<in> set es. alone e" "\<forall>i. quiet t i" by blast
    with u show ?thesis by (intro exI [of _ "e # es"] exI [of _ t]) simp
  qed
qed

lemma stuck_quiet:
  assumes "env_ok" "start s0" "reach step s0 s" "cancelled s"
    and "\<And>e t. alone e \<Longrightarrow> step e s = Some t \<Longrightarrow> t = s"
  shows "quiet s i"
proof (rule ccontr)
  assume "\<not> quiet s i"
  with progress [OF assms(1) guard_inv_reach [OF assms(1-3)] fin_reach [OF assms(2,3)] assms(4)]
  obtain e t where "alone e" "step e s = Some t" "work t < work s" by blast
  with assms(5) show False by blast
qed

end

text \<open>
  The number of events of a run that change the state. When nothing new is started, a cancelled
  system has only as many as there is work.
\<close>

fun changes :: "('e \<Rightarrow> 's \<Rightarrow> 's option) \<Rightarrow> 's \<Rightarrow> 'e list \<Rightarrow> nat" where
  "changes step s [] = 0"
| "changes step s (e # es) =
     (case step e s of None \<Rightarrow> 0 | Some t \<Rightarrow> (if t = s then 0 else 1) + changes step t es)"

locale bounded_protocol =
  progress_protocol env_ok step start holds is_locked cancelled doomed quiet work fin alone
  for env_ok and step :: "'e \<Rightarrow> 's \<Rightarrow> 's option" and start and holds and is_locked
    and cancelled and doomed and quiet and work and fin and alone +
  fixes starts :: "'e \<Rightarrow> bool"
  assumes work_step: "env_ok \<Longrightarrow> fin s \<Longrightarrow> cancelled s \<Longrightarrow> \<not> starts e \<Longrightarrow> step e s = Some t \<Longrightarrow>
      work t < work s \<or> t = s"
begin

lemma cancelled_run: "env_ok \<Longrightarrow> cancelled s \<Longrightarrow> run step s es = Some t \<Longrightarrow> cancelled t"
  by (induction es arbitrary: s) (auto elim!: run_Cons_SomeE dest: cancelled_step)

lemma bounded:
  assumes "env_ok" "fin s" "cancelled s" "run step s es = Some t" "\<forall>e \<in> set es. \<not> starts e"
  shows "changes step s es + work t \<le> work s"
  using assms(2-)
proof (induction es arbitrary: s)
  case (Cons e es)
  then obtain u where u: "step e s = Some u" "run step u es = Some t" by (auto elim: run_Cons_SomeE)
  from Cons.IH [OF fin_step [OF u(1) Cons.prems(1)] cancelled_step [OF assms(1) u(1) Cons.prems(2)] u(2)]
    Cons.prems(4) have "changes step u es + work t \<le> work u" by simp
  with work_step [OF assms(1) Cons.prems(1,2) _ u(1)] Cons.prems(4) u(1) show ?case by fastforce
qed simp

end

section \<open>Ranks of task pools\<close>

text \<open>
  The work left in a pool of tasks, all but finitely many of them of rank 0, drops when one task
  moves to a lower rank.
\<close>

definition pool_rank :: "(nat \<Rightarrow> nat) \<Rightarrow> nat" where
  "pool_rank r = (\<Sum>i | r i \<noteq> 0. r i)"

lemma pool_rank_superset:
  assumes "finite A" "{i. r i \<noteq> 0} \<subseteq> A"
  shows "pool_rank r = sum r A"
  unfolding pool_rank_def using assms by (intro sum.mono_neutral_left) auto

lemma pool_rank_update_less:
  assumes "finite {i. r i \<noteq> 0}" "x < r i"
  shows "pool_rank (r(i := x)) < pool_rank r"
proof -
  let ?A = "{i. r i \<noteq> 0}"
  have i: "i \<in> ?A" using assms(2) by simp
  have "pool_rank (r(i := x)) = sum (r(i := x)) ?A"
    using assms i by (intro pool_rank_superset) auto
  also have "\<dots> < sum r ?A"
    using assms i by (intro sum_strict_mono_ex1) auto
  finally show ?thesis by (simp add: pool_rank_def)
qed

lemma pool_rank_le: "(\<And>i. r i \<le> k) \<Longrightarrow> pool_rank r \<le> k * card {i. r i \<noteq> 0}"
  using sum_bounded_above [of "{i. r i \<noteq> 0}" r k] by (simp add: pool_rank_def mult.commute)

lemma pool_rank_0: "finite {i. r i \<noteq> 0} \<Longrightarrow> pool_rank r = 0 \<longleftrightarrow> (\<forall>i. r i = 0)"
  by (auto simp: pool_rank_def)

end
