(* ===== verification/Exceptions.thy ===== *)
theory Exceptions
  imports Prelude
begin

text \<open>
  The exception hierarchy and the exception constructors of \<^verbatim>\<open>src/errors.rs\<close> (lines 1-105).
  A Python exception value is its class, its constructor arguments and the attributes set on
  it. \<open>class_tree\<close> is the interface of a single-inheritance hierarchy; it is interpreted on
  the hierarchy the module declares.
\<close>

section \<open>Exception classes\<close>

text \<open>
  The classes made by \<^verbatim>\<open>create_exception!\<close>, and the three built-in Python classes the code
  raises or derives from.
\<close>

datatype exc_class =
    PyException | PyValueError | PyStopAsyncIteration
  | WebTransportError
  | SessionError | ConnectError | SessionRejected
  | SessionClosed | SessionClosedByPeer | SessionClosedLocally
  | SessionTimeout | ProtocolError
  | StreamError | StreamClosed | StreamClosedByPeer | StreamClosedLocally
  | StreamTooLongError | StreamIncompleteReadError
  | DatagramError | DatagramTooLargeError | DatagramNotSupportedError

fun parent :: "exc_class \<Rightarrow> exc_class option" where
  "parent PyException = None"
| "parent PyValueError = Some PyException"
| "parent PyStopAsyncIteration = Some PyException"
| "parent WebTransportError = Some PyException"
| "parent SessionError = Some WebTransportError"
| "parent ConnectError = Some SessionError"
| "parent SessionRejected = Some ConnectError"
| "parent SessionClosed = Some SessionError"
| "parent SessionClosedByPeer = Some SessionClosed"
| "parent SessionClosedLocally = Some SessionClosed"
| "parent SessionTimeout = Some SessionError"
| "parent ProtocolError = Some SessionError"
| "parent StreamError = Some WebTransportError"
| "parent StreamClosed = Some StreamError"
| "parent StreamClosedByPeer = Some StreamClosed"
| "parent StreamClosedLocally = Some StreamClosed"
| "parent StreamTooLongError = Some StreamError"
| "parent StreamIncompleteReadError = Some StreamError"
| "parent DatagramError = Some WebTransportError"
| "parent DatagramTooLargeError = Some DatagramError"
| "parent DatagramNotSupportedError = Some DatagramError"

text \<open>Distance from the root: the base class is always one level up.\<close>

fun class_depth :: "exc_class \<Rightarrow> nat" where
  "class_depth PyException = 0"
| "class_depth PyValueError = 1"
| "class_depth PyStopAsyncIteration = 1"
| "class_depth WebTransportError = 1"
| "class_depth SessionError = 2"
| "class_depth StreamError = 2"
| "class_depth DatagramError = 2"
| "class_depth ConnectError = 3"
| "class_depth SessionClosed = 3"
| "class_depth SessionTimeout = 3"
| "class_depth ProtocolError = 3"
| "class_depth StreamClosed = 3"
| "class_depth StreamTooLongError = 3"
| "class_depth StreamIncompleteReadError = 3"
| "class_depth DatagramTooLargeError = 3"
| "class_depth DatagramNotSupportedError = 3"
| "class_depth SessionRejected = 4"
| "class_depth SessionClosedByPeer = 4"
| "class_depth SessionClosedLocally = 4"
| "class_depth StreamClosedByPeer = 4"
| "class_depth StreamClosedLocally = 4"

lemma parent_depth: "parent c = Some d \<Longrightarrow> class_depth c = Suc (class_depth d)"
  by (cases c) auto

text \<open>The method resolution order of a class: itself and its bases up to the root.\<close>

function mro :: "exc_class \<Rightarrow> exc_class list" where
  "mro c = c # (case parent c of None \<Rightarrow> [] | Some d \<Rightarrow> mro d)"
  by pat_completeness auto
termination
  by (relation "measure class_depth") (auto dest: parent_depth)

definition is_subclass :: "exc_class \<Rightarrow> exc_class \<Rightarrow> bool" where
  "is_subclass c d \<longleftrightarrow> d \<in> set (mro c)"

declare mro.simps [simp del]

lemmas mro_eval [simp] =
  mro.simps [of PyException, simplified]
  mro.simps [of PyValueError, simplified]
  mro.simps [of PyStopAsyncIteration, simplified]
  mro.simps [of WebTransportError, simplified]
  mro.simps [of SessionError, simplified]
  mro.simps [of ConnectError, simplified]
  mro.simps [of SessionRejected, simplified]
  mro.simps [of SessionClosed, simplified]
  mro.simps [of SessionClosedByPeer, simplified]
  mro.simps [of SessionClosedLocally, simplified]
  mro.simps [of SessionTimeout, simplified]
  mro.simps [of ProtocolError, simplified]
  mro.simps [of StreamError, simplified]
  mro.simps [of StreamClosed, simplified]
  mro.simps [of StreamClosedByPeer, simplified]
  mro.simps [of StreamClosedLocally, simplified]
  mro.simps [of StreamTooLongError, simplified]
  mro.simps [of StreamIncompleteReadError, simplified]
  mro.simps [of DatagramError, simplified]
  mro.simps [of DatagramTooLargeError, simplified]
  mro.simps [of DatagramNotSupportedError, simplified]

section \<open>Single inheritance as an interface\<close>

text \<open>
  What the users of a class hierarchy rely on: a base is strictly closer to the root, and the
  subclass test is reachability along bases.
\<close>

locale class_tree =
  fixes base :: "'c \<Rightarrow> 'c option"
    and depth :: "'c \<Rightarrow> nat"
    and sub :: "'c \<Rightarrow> 'c \<Rightarrow> bool"
  assumes base_depth: "base c = Some d \<Longrightarrow> depth d < depth c"
    and sub_unfold: "sub c e \<longleftrightarrow> c = e \<or> (\<exists>d. base c = Some d \<and> sub d e)"
begin

lemma sub_refl [simp]: "sub c c"
  by (subst sub_unfold) simp

lemma sub_depth: "sub c e \<Longrightarrow> c = e \<or> depth e < depth c"
proof (induction "depth c" arbitrary: c rule: less_induct)
  case less
  from less.prems sub_unfold [of c e] consider "c = e" | d where "base c = Some d" "sub d e"
    by blast
  then show ?case
  proof cases
    case 2
    from base_depth [OF 2(1)] less.hyps [of d] 2(2) show ?thesis
      using base_depth [OF 2(1)] by fastforce
  qed simp
qed

lemma sub_trans: "sub c d \<Longrightarrow> sub d e \<Longrightarrow> sub c e"
proof (induction "depth c" arbitrary: c rule: less_induct)
  case less
  from less.prems(1) sub_unfold [of c d] consider "c = d" | b where "base c = Some b" "sub b d"
    by blast
  then show ?case
  proof cases
    case 2
    with less.hyps [of b] less.prems(2) base_depth have "sub b e" by blast
    with 2(1) show ?thesis by (subst sub_unfold) blast
  qed (simp add: less.prems(2))
qed

lemma sub_antisym: "sub c d \<Longrightarrow> sub d c \<Longrightarrow> c = d"
  using sub_depth [of c d] sub_depth [of d c] by fastforce

lemma sub_chain: "sub c d \<Longrightarrow> sub c e \<Longrightarrow> sub d e \<or> sub e d"
proof (induction "depth c" arbitrary: c rule: less_induct)
  case less
  show ?case
  proof (cases "c = d \<or> c = e")
    case False
    then obtain b where "base c = Some b" "sub b d" "sub b e"
      using less.prems sub_unfold [of c d] sub_unfold [of c e] by force
    with less.hyps base_depth show ?thesis by blast
  qed (use less.prems in auto)
qed

lemma no_sub_sibling:
  assumes "base x = base y" "x \<noteq> y"
  shows "\<not> sub x y"
proof
  assume "sub x y"
  with sub_unfold [of x y] assms(2) obtain d where d: "base x = Some d" "sub d y" by blast
  from base_depth [of y d] d(1) assms(1) have "depth d < depth y" by simp
  with sub_depth [OF d(2)] show False by auto
qed

lemma siblings_disjoint:
  assumes "base d = base e" "d \<noteq> e" "sub c d"
  shows "\<not> sub c e"
  using sub_chain [OF assms(3)] no_sub_sibling [of d e] no_sub_sibling [of e d] assms(1,2) by auto

end

interpretation exc: class_tree parent class_depth is_subclass
proof
  show "class_depth d < class_depth c" if "parent c = Some d" for c d
    using parent_depth [OF that] by simp
  show "is_subclass c e \<longleftrightarrow> c = e \<or> (\<exists>d. parent c = Some d \<and> is_subclass d e)" for c e
    by (auto simp: is_subclass_def mro.simps [of c] split: option.splits)
qed

text \<open>The classes are ordered by inheritance: \<open>c \<le> d\<close> when \<^verbatim>\<open>except d\<close> catches \<open>c\<close>.\<close>

instantiation exc_class :: order
begin

definition less_eq_exc_class :: "exc_class \<Rightarrow> exc_class \<Rightarrow> bool" where
  "less_eq_exc_class = is_subclass"

definition less_exc_class :: "exc_class \<Rightarrow> exc_class \<Rightarrow> bool" where
  "less_exc_class c d \<longleftrightarrow> is_subclass c d \<and> c \<noteq> d"

instance
  by standard
    (auto simp: less_eq_exc_class_def less_exc_class_def intro: exc.sub_trans exc.sub_antisym)

end

section \<open>Exception values\<close>

datatype py_val = PyNone | PyInt int | PyStr string | PyBytes bytes

record py_err =
  exc :: exc_class
  args :: "py_val list"
  attrs :: "(string \<times> py_val) list"

definition new_err :: "exc_class \<Rightarrow> string \<Rightarrow> py_err" where
  "new_err c msg = \<lparr>exc = c, args = [PyStr msg], attrs = []\<rparr>"

text \<open>\<^verbatim>\<open>PyStopAsyncIteration::new_err(())\<close>: no constructor arguments.\<close>

definition stop_async_iteration :: py_err where
  "stop_async_iteration = \<lparr>exc = PyStopAsyncIteration, args = [], attrs = []\<rparr>"

definition setattr :: "string \<Rightarrow> py_val \<Rightarrow> py_err \<Rightarrow> py_err" where
  "setattr k v e = e\<lparr>attrs := AList.update k v (attrs e)\<rparr>"

definition set_attrs :: "py_err \<Rightarrow> (py_err \<Rightarrow> py_err) \<Rightarrow> py_err" where
  "set_attrs err f = f err"

definition attr :: "string \<Rightarrow> py_err \<Rightarrow> py_val option" where
  "attr k e = map_of (attrs e) k"

text \<open>\<^verbatim>\<open>except D\<close> catches an exception exactly when its class derives from \<^verbatim>\<open>D\<close>.\<close>

definition catches :: "exc_class \<Rightarrow> py_err \<Rightarrow> bool" where
  "catches d e \<longleftrightarrow> is_subclass (exc e) d"

lemma new_err_simps [simp]:
  "exc (new_err c m) = c" "args (new_err c m) = [PyStr m]" "attrs (new_err c m) = []"
  by (simp_all add: new_err_def)

lemma setattr_simps [simp]:
  "exc (setattr k v e) = exc e" "args (setattr k v e) = args e"
  "attrs (setattr k v e) = AList.update k v (attrs e)"
  by (simp_all add: setattr_def)

lemma attr_setattr: "attr j (setattr k v e) = (if j = k then Some v else attr j e)"
  by (simp add: attr_def update_conv')

lemma attr_new_err [simp]: "attr k (new_err c m) = None"
  by (simp add: attr_def)

section \<open>Exception constructors\<close>

definition py_opt_int :: "u64 option \<Rightarrow> py_val" where
  "py_opt_int c = (case c of None \<Rightarrow> PyNone | Some n \<Rightarrow> PyInt (uint n))"

definition new_session_closed_by_peer :: "string \<Rightarrow> u64 option \<Rightarrow> string \<Rightarrow> py_err" where
  "new_session_closed_by_peer source code reason =
     (let code_str = (case code of None \<Rightarrow> '''' | Some c \<Rightarrow> '' (code '' @ show_nat (unat c) @ '')'');
          msg = (if source = ''session'' then ''peer closed session'' @ code_str @ '': '' @ reason
                 else if source = ''application''
                   then ''peer application closed session'' @ code_str @ '': '' @ reason
                 else if source = ''transport'' then ''transport closed'' @ code_str @ '': '' @ reason
                 else if source = ''connection-reset'' then ''peer sent stateless reset''
                 else ''session closed by peer'' @ code_str @ '': '' @ reason);
          err = new_err SessionClosedByPeer msg
      in set_attrs err (\<lambda>val.
           let val = setattr ''source'' (PyStr source) val;
               val = setattr ''code'' (py_opt_int code) val
           in setattr ''reason'' (PyStr reason) val))"

definition new_stream_closed_by_peer :: "string \<Rightarrow> u32 \<Rightarrow> py_err" where
  "new_stream_closed_by_peer kind code =
     (let msg = ''stream '' @ kind @ '' by peer with code '' @ show_nat (unat code);
          err = new_err StreamClosedByPeer msg
      in set_attrs err (\<lambda>val.
           let val = setattr ''kind'' (PyStr kind) val
           in setattr ''code'' (PyInt (uint code)) val))"

definition new_stream_incomplete_read_error :: "usize \<Rightarrow> bytes \<Rightarrow> py_err" where
  "new_stream_incomplete_read_error expected partial =
     (let got = length partial;
          msg = ''expected '' @ show_nat (unat expected) @ '' bytes, got '' @ show_nat got @
                '' before EOF'';
          err = new_err StreamIncompleteReadError msg
      in set_attrs err (\<lambda>val.
           let val = setattr ''expected'' (PyInt (uint expected)) val
           in setattr ''partial'' (PyBytes partial) val))"

definition new_session_rejected :: "u16 \<Rightarrow> string \<Rightarrow> py_err" where
  "new_session_rejected status_code msg =
     (let err = new_err SessionRejected msg
      in set_attrs err (setattr ''status_code'' (PyInt (uint status_code))))"

definition new_datagram_not_supported_error :: "string \<Rightarrow> py_err" where
  "new_datagram_not_supported_error reason =
     (let msg = ''datagrams not available: '' @ reason;
          err = new_err DatagramNotSupportedError msg
      in set_attrs err (setattr ''reason'' (PyStr reason)))"

lemmas constructor_defs =
  new_session_closed_by_peer_def new_stream_closed_by_peer_def
  new_stream_incomplete_read_error_def new_session_rejected_def
  new_datagram_not_supported_error_def set_attrs_def Let_def

lemma exc_constructors [simp]:
  "exc (new_session_closed_by_peer s c r) = SessionClosedByPeer"
  "exc (new_stream_closed_by_peer k n) = StreamClosedByPeer"
  "exc (new_stream_incomplete_read_error m p) = StreamIncompleteReadError"
  "exc (new_session_rejected sc msg) = SessionRejected"
  "exc (new_datagram_not_supported_error r) = DatagramNotSupportedError"
  by (simp_all add: constructor_defs)

lemma attr_constructors [simp]:
  "attr k (new_session_closed_by_peer s c r) =
     [''source'' \<mapsto> PyStr s, ''code'' \<mapsto> py_opt_int c, ''reason'' \<mapsto> PyStr r] k"
  "attr k (new_stream_closed_by_peer d n) =
     [''kind'' \<mapsto> PyStr d, ''code'' \<mapsto> PyInt (uint n)] k"
  "attr k (new_stream_incomplete_read_error m p) =
     [''expected'' \<mapsto> PyInt (uint m), ''partial'' \<mapsto> PyBytes p] k"
  "attr k (new_session_rejected sc msg) = [''status_code'' \<mapsto> PyInt (uint sc)] k"
  "attr k (new_datagram_not_supported_error r) = [''reason'' \<mapsto> PyStr r] k"
  by (simp_all add: constructor_defs attr_setattr)

section \<open>Well-formed exceptions\<close>

text \<open>
  The attributes the type stubs declare for each class (\<^verbatim>\<open>_web_transport.pyi\<close>): present, of the
  declared type, and within the declared literals.
\<close>

definition is_str_in :: "string list \<Rightarrow> py_val option \<Rightarrow> bool" where
  "is_str_in ls v = (case v of Some (PyStr s) \<Rightarrow> s \<in> set ls | _ \<Rightarrow> False)"

definition is_str :: "py_val option \<Rightarrow> bool" where
  "is_str v = (case v of Some (PyStr s) \<Rightarrow> True | _ \<Rightarrow> False)"

definition is_int_below :: "int \<Rightarrow> py_val option \<Rightarrow> bool" where
  "is_int_below b v = (case v of Some (PyInt i) \<Rightarrow> 0 \<le> i \<and> i < b | _ \<Rightarrow> False)"

definition is_opt_int :: "py_val option \<Rightarrow> bool" where
  "is_opt_int v = (v = Some PyNone \<or> is_int_below (2 ^ 64) v)"

definition is_bytes :: "py_val option \<Rightarrow> bool" where
  "is_bytes v = (case v of Some (PyBytes b) \<Rightarrow> True | _ \<Rightarrow> False)"

definition err_wf :: "py_err \<Rightarrow> bool" where
  "err_wf e = (case exc e of
     SessionClosedByPeer \<Rightarrow>
       is_str_in [''session'', ''application'', ''transport'', ''connection-reset''] (attr ''source'' e)
       \<and> is_opt_int (attr ''code'' e) \<and> is_str (attr ''reason'' e)
   | SessionRejected \<Rightarrow> is_int_below (2 ^ 16) (attr ''status_code'' e)
   | StreamClosedByPeer \<Rightarrow>
       is_str_in [''reset'', ''stop''] (attr ''kind'' e) \<and> is_int_below (2 ^ 32) (attr ''code'' e)
   | StreamTooLongError \<Rightarrow> is_int_below (2 ^ 64) (attr ''limit'' e)
   | StreamIncompleteReadError \<Rightarrow>
       is_int_below (2 ^ 64) (attr ''expected'' e) \<and> is_bytes (attr ''partial'' e)
   | DatagramNotSupportedError \<Rightarrow>
       is_str_in [''unsupported_by_peer'', ''disabled_locally''] (attr ''reason'' e)
   | _ \<Rightarrow> True)"

lemma uint_below [simp]:
  "uint (c :: u16) < 65536" "uint (n :: u32) < 4294967296" "uint (m :: u64) < 18446744073709551616"
  using unsigned_less [of c] unsigned_less [of n] unsigned_less [of m] by simp_all

lemma is_opt_int_py_opt_int [simp]: "is_opt_int (Some (py_opt_int c))"
  by (cases c) (auto simp: is_opt_int_def is_int_below_def py_opt_int_def)

end
