(* ===== verification/Utf8_Lossy.thy ===== *)
theory Utf8_Lossy
  imports Prelude
begin

text \<open>
  \<^verbatim>\<open>String::from_utf8_lossy\<close>, which \<^verbatim>\<open>src/errors.rs\<close> (lines 121 and 126) applies to the close
  reason a peer sends. The standard library scans for well-formed UTF-8 sequences and replaces
  each maximal ill-formed prefix by U+FFFD. Shown here: the scan makes progress and stays inside
  the buffer, the result is always valid UTF-8, and valid input is unchanged.
\<close>

unbundle bit_operations_syntax

section \<open>Scanning one character\<close>

text \<open>\<^verbatim>\<open>safe_get\<close> reads 0 past the end; a continuation byte is \<^verbatim>\<open>b & 192 == 128\<close>.\<close>

definition safe_get :: "bytes \<Rightarrow> nat \<Rightarrow> u8" where
  "safe_get bs i = (if i < length bs then bs ! i else 0)"

definition is_cont :: "u8 \<Rightarrow> bool" where
  "is_cont b \<longleftrightarrow> b AND 192 = 128"

definition utf8_char_width :: "u8 \<Rightarrow> nat" where
  "utf8_char_width b =
     (if b < 0x80 then 1
      else if 0xC2 \<le> b \<and> b \<le> 0xDF then 2
      else if 0xE0 \<le> b \<and> b \<le> 0xEF then 3
      else if 0xF0 \<le> b \<and> b \<le> 0xF4 then 4
      else 0)"

definition second_ok3 :: "u8 \<Rightarrow> u8 \<Rightarrow> bool" where
  "second_ok3 b c \<longleftrightarrow>
     b = 0xE0 \<and> 0xA0 \<le> c \<and> c \<le> 0xBF \<or>
     0xE1 \<le> b \<and> b \<le> 0xEC \<and> 0x80 \<le> c \<and> c \<le> 0xBF \<or>
     b = 0xED \<and> 0x80 \<le> c \<and> c \<le> 0x9F \<or>
     0xEE \<le> b \<and> b \<le> 0xEF \<and> 0x80 \<le> c \<and> c \<le> 0xBF"

definition second_ok4 :: "u8 \<Rightarrow> u8 \<Rightarrow> bool" where
  "second_ok4 b c \<longleftrightarrow>
     b = 0xF0 \<and> 0x90 \<le> c \<and> c \<le> 0xBF \<or>
     0xF1 \<le> b \<and> b \<le> 0xF3 \<and> 0x80 \<le> c \<and> c \<le> 0xBF \<or>
     b = 0xF4 \<and> 0x80 \<le> c \<and> c \<le> 0x8F"

text \<open>
  One round of the scan on a non-empty buffer: whether a whole character was read, and how many
  bytes were consumed (the character, or the ill-formed prefix).
\<close>

definition scan_char :: "bytes \<Rightarrow> bool \<times> nat" where
  "scan_char bs =
     (let b = safe_get bs 0; w = utf8_char_width b in
      if w = 1 then (True, 1)
      else if w = 2 then
        (if \<not> is_cont (safe_get bs 1) then (False, 1) else (True, 2))
      else if w = 3 then
        (if \<not> second_ok3 b (safe_get bs 1) then (False, 1)
         else if \<not> is_cont (safe_get bs 2) then (False, 2) else (True, 3))
      else if w = 4 then
        (if \<not> second_ok4 b (safe_get bs 1) then (False, 1)
         else if \<not> is_cont (safe_get bs 2) then (False, 2)
         else if \<not> is_cont (safe_get bs 3) then (False, 3) else (True, 4))
      else (False, 1))"

lemma is_cont_0 [simp]: "\<not> is_cont 0"
  by (simp add: is_cont_def)

lemma second_ok_0 [simp]: "\<not> second_ok3 b 0" "\<not> second_ok4 b 0"
  by (simp_all add: second_ok3_def second_ok4_def)

lemma safe_get_len: "safe_get bs i \<noteq> 0 \<Longrightarrow> i < length bs"
  by (simp add: safe_get_def split: if_splits)

lemma cont_len: "is_cont (safe_get bs i) \<Longrightarrow> i < length bs"
  by (metis is_cont_0 safe_get_len)

lemma second_len:
  "second_ok3 b (safe_get bs i) \<Longrightarrow> i < length bs"
  "second_ok4 b (safe_get bs i) \<Longrightarrow> i < length bs"
  by (metis second_ok_0(1) safe_get_len, metis second_ok_0(2) safe_get_len)

lemma scan_char_pos: "0 < snd (scan_char bs)"
  by (simp add: scan_char_def Let_def)

lemma scan_char_posD: "(ok, n) = scan_char bs \<Longrightarrow> 0 < n"
  by (metis scan_char_pos snd_conv)

lemma scan_char_len: "bs \<noteq> [] \<Longrightarrow> snd (scan_char bs) \<le> length bs"
  by (auto simp: scan_char_def Let_def Suc_le_eq dest: cont_len second_len split: if_splits)

text \<open>A whole character is recognised from its own bytes, whatever follows.\<close>

lemma safe_get_take: "i < n \<Longrightarrow> n \<le> length bs \<Longrightarrow> safe_get (take n bs @ ys) i = safe_get bs i"
  by (simp add: safe_get_def nth_append)

lemma scan_char_prefix:
  assumes "bs \<noteq> []" "scan_char bs = (True, n)"
  shows "scan_char (take n bs @ ys) = (True, n)"
proof -
  from assms have n: "n \<le> length bs" "0 < n"
    using scan_char_len [of bs] scan_char_pos [of bs] by simp_all
  from assms(2) n show ?thesis
    unfolding scan_char_def Let_def
    by (auto simp: safe_get_take split: if_splits)
qed

section \<open>The lossy conversion\<close>

text \<open>U+FFFD in UTF-8.\<close>

definition REPLACEMENT :: bytes where
  "REPLACEMENT = [0xEF, 0xBF, 0xBD]"

function lossy :: "bytes \<Rightarrow> bytes" where
  "lossy bs = (if bs = [] then []
     else let (ok, n) = scan_char bs in
       (if ok then take n bs else REPLACEMENT) @ lossy (drop n bs))"
  by pat_completeness auto
termination
  by (relation "measure length") (auto dest: scan_char_posD)

function valid_utf8 :: "bytes \<Rightarrow> bool" where
  "valid_utf8 bs = (if bs = [] then True
     else let (ok, n) = scan_char bs in if ok then valid_utf8 (drop n bs) else False)"
  by pat_completeness auto
termination
  by (relation "measure length") (auto dest: scan_char_posD)

declare lossy.simps [simp del] valid_utf8.simps [simp del]

lemma lossy_Nil [simp]: "lossy [] = []"
  by (simp add: lossy.simps)

lemma valid_utf8_Nil [simp]: "valid_utf8 []"
  by (subst valid_utf8.simps) simp

lemma valid_utf8_char:
  assumes "bs \<noteq> []" "scan_char bs = (True, n)" "valid_utf8 ys"
  shows "valid_utf8 (take n bs @ ys)"
proof -
  have "n \<le> length bs" using scan_char_len [OF assms(1)] assms(2) by simp
  moreover have "scan_char (take n bs @ ys) = (True, n)"
    by (rule scan_char_prefix [OF assms(1,2)])
  ultimately show ?thesis
    using assms(3) by (subst valid_utf8.simps) simp
qed

lemma scan_REPLACEMENT: "scan_char REPLACEMENT = (True, 3)"
  by (simp add: REPLACEMENT_def scan_char_def safe_get_def utf8_char_width_def second_ok3_def
      is_cont_def)

lemma valid_utf8_REPLACEMENT: "valid_utf8 ys \<Longrightarrow> valid_utf8 (REPLACEMENT @ ys)"
  using valid_utf8_char [OF _ scan_REPLACEMENT, of ys] by (simp add: REPLACEMENT_def)

lemma valid_utf8_lossy: "valid_utf8 (lossy bs)"
proof (induction bs rule: lossy.induct)
  case (1 bs)
  show ?case
  proof (cases "bs = []")
    case False
    obtain ok n where s: "scan_char bs = (ok, n)" by (cases "scan_char bs")
    with False 1 have "valid_utf8 (lossy (drop n bs))" by simp
    with False s show ?thesis
      by (cases ok) (simp_all add: lossy.simps [of bs] valid_utf8_char valid_utf8_REPLACEMENT)
  qed simp
qed

lemma lossy_valid: "valid_utf8 bs \<Longrightarrow> lossy bs = bs"
proof (induction bs rule: lossy.induct)
  case (1 bs)
  show ?case
  proof (cases "bs = []")
    case False
    obtain ok n where s: "scan_char bs = (ok, n)" by (cases "scan_char bs")
    with False "1.prems" have "ok" "valid_utf8 (drop n bs)"
      by (simp_all add: valid_utf8.simps [of bs] split: if_splits)
    with False s 1 show ?thesis by (simp add: lossy.simps [of bs])
  qed simp
qed

lemma lossy_idem [simp]: "lossy (lossy bs) = lossy bs"
  by (simp add: lossy_valid valid_utf8_lossy)

text \<open>Every ASCII string is valid UTF-8.\<close>

lemma valid_utf8_ascii: "\<forall>b \<in> set bs. b < 0x80 \<Longrightarrow> valid_utf8 bs"
proof (induction bs)
  case (Cons b bs)
  then have "scan_char (b # bs) = (True, 1)"
    by (simp add: scan_char_def safe_get_def utf8_char_width_def)
  with Cons show ?case by (simp add: valid_utf8.simps [of "b # bs"])
qed simp

text \<open>\<^verbatim>\<open>String::from_utf8_lossy(bytes).to_string()\<close>.\<close>

definition from_utf8_lossy :: "bytes \<Rightarrow> string" where
  "from_utf8_lossy bs = str_of_bytes (lossy bs)"

end
