(* ===== verification/Error_Mapping.thy ===== *)
theory Error_Mapping
  imports Exceptions Utf8_Lossy
begin

text \<open>
  The error maps of \<^verbatim>\<open>src/errors.rs\<close> (lines 107-259): one function per Rust error type, to the
  Python exception the binding raises. The error enums belong to \<^verbatim>\<open>quinn\<close> and
  \<^verbatim>\<open>web_transport_quinn\<close>; a datatype has the variants the \<^verbatim>\<open>match\<close> arms name, and one more
  constructor for the variants a wildcard arm covers. Payloads the code only prints have an
  abstract type \<open>'x\<close>. \<open>error_contract\<close> is the interface a caller of a map relies on, and it is
  interpreted on every map.
\<close>

section \<open>Third-party error values\<close>

datatype 'x connection_error =
    ConnectionError_TimedOut
  | ConnectionError_LocallyClosed
  | ConnectionError_ApplicationClosed u64 bytes
  | ConnectionError_ConnectionClosed u64 bytes
  | ConnectionError_Reset
  | ConnectionError_TransportError 'x
  | ConnectionError_VersionMismatch
  | ConnectionError_CidsExhausted

datatype 'x web_transport_error =
    WebTransportError_Closed u32 string
  | WebTransportError_other 'x

datatype 'x send_datagram_error =
    SendDatagramError_UnsupportedByPeer
  | SendDatagramError_Disabled
  | SendDatagramError_TooLarge
  | SendDatagramError_ConnectionLost "'x connection_error"

datatype 'x session_error =
    SessionError_ConnectionError "'x connection_error"
  | SessionError_WebTransportError "'x web_transport_error"
  | SessionError_SendDatagramError "'x send_datagram_error"

datatype 'x write_error =
    WriteError_Stopped u32
  | WriteError_InvalidStopped u64
  | WriteError_SessionError "'x session_error"
  | WriteError_ClosedStream

datatype 'x read_error =
    ReadError_Reset u32
  | ReadError_InvalidReset u64
  | ReadError_SessionError "'x session_error"
  | ReadError_ClosedStream
  | ReadError_IllegalOrderedRead

datatype 'x read_to_end_error =
    ReadToEndError_TooLong
  | ReadToEndError_ReadError "'x read_error"

datatype 'x read_exact_error =
    ReadExactError_FinishedEarly usize
  | ReadExactError_ReadError "'x read_error"

datatype 'x proto_connect_error =
    ProtoConnectError_WrongStatus "u16 option"
  | ProtoConnectError_other 'x

datatype 'x http_connect_error =
    HttpConnectError_ProtoError "'x proto_connect_error"
  | HttpConnectError_other 'x

datatype 'x client_error =
    ClientError_HttpError "'x http_connect_error"
  | ClientError_other 'x

datatype 'x server_error =
    ServerError_Connection "'x connection_error"
  | ServerError_UnexpectedEnd
  | ServerError_WriteError 'x
  | ServerError_ReadError 'x
  | ServerError_SettingsError 'x
  | ServerError_ConnectError 'x
  | ServerError_IoError 'x
  | ServerError_Rustls 'x

text \<open>
  What the maps call in the third-party crates: the \<^verbatim>\<open>Display\<close> texts and the decoding of a
  WebTransport code from an HTTP/3 code. Nothing is assumed of them.
\<close>

record 'x ext =
  to_string :: "'x \<Rightarrow> string"
  client_error_to_string :: "'x client_error \<Rightarrow> string"
  server_error_to_string :: "'x server_error \<Rightarrow> string"
  error_from_http3 :: "u64 \<Rightarrow> u32 option"

text \<open>A concrete instance, on which the properties are evaluated.\<close>

definition ext_ref :: "nat ext" where
  "ext_ref = \<lparr>to_string = (\<lambda>n. ''third-party error '' @ show_nat n),
     client_error_to_string = (\<lambda>_. ''client error''),
     server_error_to_string = (\<lambda>_. ''server error''),
     error_from_http3 = (\<lambda>n. if n < 2 ^ 32 then Some (ucast n) else None)\<rparr>"

section \<open>The maps\<close>

fun map_connection_error :: "'x ext \<Rightarrow> 'x connection_error \<Rightarrow> py_err" where
  "map_connection_error X ConnectionError_TimedOut = new_err SessionTimeout ''session timed out''"
| "map_connection_error X ConnectionError_LocallyClosed =
     new_err SessionClosedLocally ''session closed locally''"
| "map_connection_error X (ConnectionError_ApplicationClosed error_code r) =
     (let code = map_option (\<lambda>c. ucast c) (error_from_http3 X error_code);
          reason = from_utf8_lossy r
      in new_session_closed_by_peer ''application'' code reason)"
| "map_connection_error X (ConnectionError_ConnectionClosed code r) =
     (let reason = from_utf8_lossy r
      in new_session_closed_by_peer ''transport'' (Some code) reason)"
| "map_connection_error X ConnectionError_Reset =
     new_session_closed_by_peer ''connection-reset'' None ''''"
| "map_connection_error X (ConnectionError_TransportError te) =
     new_err ProtocolError (to_string X te)"
| "map_connection_error X ConnectionError_VersionMismatch =
     new_err ProtocolError ''QUIC version mismatch''"
| "map_connection_error X ConnectionError_CidsExhausted =
     new_err ProtocolError ''connection IDs exhausted''"

fun map_send_datagram_error :: "'x ext \<Rightarrow> 'x send_datagram_error \<Rightarrow> py_err" where
  "map_send_datagram_error X SendDatagramError_UnsupportedByPeer =
     new_datagram_not_supported_error ''unsupported_by_peer''"
| "map_send_datagram_error X SendDatagramError_Disabled =
     new_datagram_not_supported_error ''disabled_locally''"
| "map_send_datagram_error X SendDatagramError_TooLarge =
     new_err DatagramTooLargeError ''datagram too large''"
| "map_send_datagram_error X (SendDatagramError_ConnectionLost ce) = map_connection_error X ce"

fun map_session_error :: "'x ext \<Rightarrow> 'x session_error \<Rightarrow> py_err" where
  "map_session_error X (SessionError_ConnectionError ce) = map_connection_error X ce"
| "map_session_error X (SessionError_WebTransportError wte) =
     (case wte of
        WebTransportError_Closed code reason \<Rightarrow>
          new_session_closed_by_peer ''session'' (Some (ucast code)) reason
      | WebTransportError_other w \<Rightarrow> new_err ProtocolError (to_string X w))"
| "map_session_error X (SessionError_SendDatagramError sde) = map_send_datagram_error X sde"

fun map_write_error :: "'x ext \<Rightarrow> 'x write_error \<Rightarrow> py_err" where
  "map_write_error X (WriteError_Stopped code) = new_stream_closed_by_peer ''stop'' code"
| "map_write_error X (WriteError_InvalidStopped v) =
     new_err ProtocolError ''peer sent STOP_SENDING with invalid error code''"
| "map_write_error X (WriteError_SessionError se) = map_session_error X se"
| "map_write_error X WriteError_ClosedStream =
     new_err StreamClosedLocally ''stream already closed''"

fun map_read_error :: "'x ext \<Rightarrow> 'x read_error \<Rightarrow> py_err" where
  "map_read_error X (ReadError_Reset code) = new_stream_closed_by_peer ''reset'' code"
| "map_read_error X (ReadError_InvalidReset v) =
     new_err ProtocolError ''peer sent RESET_STREAM with invalid error code''"
| "map_read_error X (ReadError_SessionError se) = map_session_error X se"
| "map_read_error X ReadError_ClosedStream =
     new_err StreamClosedLocally ''stream already closed''"
| "map_read_error X ReadError_IllegalOrderedRead =
     new_err ProtocolError ''illegal ordered read on unordered stream''"

fun map_read_to_end_error :: "'x ext \<Rightarrow> 'x read_to_end_error \<Rightarrow> usize \<Rightarrow> py_err" where
  "map_read_to_end_error X ReadToEndError_TooLong limit =
     (let msg = ''stream data exceeded '' @ show_nat (unat limit) @ '' byte limit'';
          err = new_err StreamTooLongError msg
      in set_attrs err (setattr ''limit'' (PyInt (uint limit))))"
| "map_read_to_end_error X (ReadToEndError_ReadError re) limit = map_read_error X re"

text \<open>
  \<^verbatim>\<open>&buf[..bytes_read]\<close> panics when \<^verbatim>\<open>bytes_read\<close> is past the end of the buffer: \<open>None\<close>.
\<close>

definition slice_to :: "bytes \<Rightarrow> usize \<Rightarrow> bytes option" where
  "slice_to buf n = (if unat n \<le> length buf then Some (take (unat n) buf) else None)"

fun map_read_exact_error ::
  "'x ext \<Rightarrow> 'x read_exact_error \<Rightarrow> usize \<Rightarrow> bytes \<Rightarrow> py_err option" where
  "map_read_exact_error X (ReadExactError_FinishedEarly bytes_read) expected buf =
     map_option (new_stream_incomplete_read_error expected) (slice_to buf bytes_read)"
| "map_read_exact_error X (ReadExactError_ReadError re) expected buf = Some (map_read_error X re)"

fun map_client_error :: "'x ext \<Rightarrow> 'x client_error \<Rightarrow> py_err" where
  "map_client_error X (ClientError_HttpError (HttpConnectError_ProtoError
      (ProtoConnectError_WrongStatus (Some status)))) =
     new_session_rejected status
       (client_error_to_string X (ClientError_HttpError (HttpConnectError_ProtoError
          (ProtoConnectError_WrongStatus (Some status)))))"
| "map_client_error X err = new_err ConnectError (client_error_to_string X err)"

fun map_server_error :: "'x ext \<Rightarrow> 'x server_error \<Rightarrow> py_err" where
  "map_server_error X (ServerError_Connection ce) = map_connection_error X ce"
| "map_server_error X err = new_err SessionError (server_error_to_string X err)"

section \<open>What a caller relies on\<close>

text \<open>
  A map keeps its contract when every exception it makes derives from \<open>root\<close> and carries the
  attributes its class declares. A partial map may panic instead of making one.
\<close>

locale partial_error_contract =
  fixes pmap :: "'e \<Rightarrow> py_err option" and root :: exc_class
  assumes pmap_root: "pmap e = Some err \<Longrightarrow> is_subclass (exc err) root"
    and pmap_wf: "pmap e = Some err \<Longrightarrow> err_wf err"
begin

lemma raised_caught: "pmap e = Some err \<Longrightarrow> is_subclass root d \<Longrightarrow> catches d err \<and> err_wf err"
  unfolding catches_def using exc.sub_trans [OF pmap_root] pmap_wf by blast

end

locale error_contract =
  fixes emap :: "'e \<Rightarrow> py_err" and root :: exc_class
  assumes emap_root: "is_subclass (exc (emap e)) root"
    and emap_wf: "err_wf (emap e)"
begin

lemma caught_by_bases: "is_subclass root d \<Longrightarrow> catches d (emap e)"
  unfolding catches_def by (rule exc.sub_trans [OF emap_root])

lemma not_caught_by_siblings:
  "parent root = parent d \<Longrightarrow> root \<noteq> d \<Longrightarrow> \<not> catches d (emap e)"
  unfolding catches_def by (rule exc.siblings_disjoint [OF _ _ emap_root])

lemma map_err_caught:
  "map_err emap r = Inl e \<Longrightarrow> is_subclass root d \<Longrightarrow> catches d e \<and> err_wf e"
  by (auto simp: map_err_eq_Inl intro: caught_by_bases emap_wf)

end

text \<open>A total map is a partial one that never panics.\<close>

sublocale error_contract \<subseteq> total: partial_error_contract "\<lambda>e. Some (emap e)" root
  by unfold_locales (use emap_root emap_wf in auto)

text \<open>A weaker contract follows for every base of the root.\<close>

locale api_error_contract = error_contract +
  assumes root_api: "is_subclass root WebTransportError"

sublocale api_error_contract \<subseteq> api: error_contract emap WebTransportError
  by unfold_locales
    (use exc.sub_trans [OF emap_root root_api] emap_wf in simp_all)

lemmas wf_attr_defs = is_str_in_def is_str_def is_int_below_def is_bytes_def

lemma err_wf_new_err [simp]:
  "c \<notin> {SessionClosedByPeer, SessionRejected, StreamClosedByPeer, StreamTooLongError,
         StreamIncompleteReadError, DatagramNotSupportedError} \<Longrightarrow> err_wf (new_err c m)"
  by (cases c) (auto simp: err_wf_def)

lemma err_wf_constructors [simp]:
  "err_wf (new_session_closed_by_peer s c r) \<longleftrightarrow>
     s \<in> {''session'', ''application'', ''transport'', ''connection-reset''}"
  "err_wf (new_stream_closed_by_peer k n) \<longleftrightarrow> k \<in> {''reset'', ''stop''}"
  "err_wf (new_stream_incomplete_read_error m p)"
  "err_wf (new_session_rejected sc msg)"
  "err_wf (new_datagram_not_supported_error s) \<longleftrightarrow> s \<in> {''unsupported_by_peer'', ''disabled_locally''}"
  by (auto simp: err_wf_def wf_attr_defs)

lemma map_connection_error_class:
  "exc (map_connection_error X e) \<in>
     {SessionTimeout, SessionClosedLocally, SessionClosedByPeer, ProtocolError}"
  by (cases e) simp_all

interpretation conn: api_error_contract "map_connection_error X" SessionError for X
proof
  show "is_subclass (exc (map_connection_error X e)) SessionError" for e
    using map_connection_error_class [of X e] by (auto simp: is_subclass_def)
  show "err_wf (map_connection_error X e)" for e
    by (cases e) (simp_all add: Let_def)
qed (simp add: is_subclass_def)

interpretation dgram: api_error_contract "map_send_datagram_error X" WebTransportError for X
proof
  show "is_subclass (exc (map_send_datagram_error X e)) WebTransportError" for e
    by (cases e) (use conn.api.emap_root in \<open>simp_all add: is_subclass_def\<close>)
  show "err_wf (map_send_datagram_error X e)" for e
    by (cases e) (simp_all add: conn.emap_wf)
qed (simp add: is_subclass_def)

interpretation sess: api_error_contract "map_session_error X" WebTransportError for X
proof
  show "is_subclass (exc (map_session_error X e)) WebTransportError" for e
    by (cases e) (use conn.api.emap_root dgram.emap_root in
        \<open>auto simp: is_subclass_def split: web_transport_error.split\<close>)
  show "err_wf (map_session_error X e)" for e
    by (cases e) (auto simp: conn.emap_wf dgram.emap_wf
        split: web_transport_error.split)
qed (simp add: is_subclass_def)

interpretation wr: api_error_contract "map_write_error X" WebTransportError for X
proof
  show "is_subclass (exc (map_write_error X e)) WebTransportError" for e
    by (cases e) (use sess.emap_root in \<open>simp_all add: is_subclass_def\<close>)
  show "err_wf (map_write_error X e)" for e
    by (cases e) (simp_all add: sess.emap_wf)
qed (simp add: is_subclass_def)

interpretation rd: api_error_contract "map_read_error X" WebTransportError for X
proof
  show "is_subclass (exc (map_read_error X e)) WebTransportError" for e
    by (cases e) (use sess.emap_root in \<open>simp_all add: is_subclass_def\<close>)
  show "err_wf (map_read_error X e)" for e
    by (cases e) (simp_all add: sess.emap_wf)
qed (simp add: is_subclass_def)

interpretation rte: api_error_contract "\<lambda>e. map_read_to_end_error X e l" WebTransportError for X l
proof
  show "is_subclass (exc (map_read_to_end_error X e l)) WebTransportError" for e
    by (cases e) (use rd.emap_root in \<open>simp_all add: is_subclass_def Let_def set_attrs_def\<close>)
  show "err_wf (map_read_to_end_error X e l)" for e
  proof (cases e)
    case ReadToEndError_TooLong
    then show ?thesis by (simp add: Let_def set_attrs_def attr_setattr err_wf_def wf_attr_defs)
  next
    case (ReadToEndError_ReadError re)
    then show ?thesis using rd.emap_wf by simp
  qed
qed (simp add: is_subclass_def)

interpretation rex: partial_error_contract "\<lambda>e. map_read_exact_error X e n buf" WebTransportError for X n buf
proof
  fix e err
  assume "map_read_exact_error X e n buf = Some err"
  then show "is_subclass (exc err) WebTransportError" "err_wf err"
    using rd.emap_root rd.emap_wf by (cases e; auto simp: is_subclass_def)+
qed

lemma map_client_error_class:
  "exc (map_client_error X e) \<in> {ConnectError, SessionRejected}"
  by (cases "(X, e)" rule: map_client_error.cases) simp_all

interpretation cl: api_error_contract "map_client_error X" ConnectError for X
proof
  show "is_subclass (exc (map_client_error X e)) ConnectError" for e
    using map_client_error_class [of X e] by (auto simp: is_subclass_def)
  show "err_wf (map_client_error X e)" for e
    by (cases "(X, e)" rule: map_client_error.cases) simp_all
qed (simp add: is_subclass_def)

interpretation srv: api_error_contract "map_server_error X" SessionError for X
proof
  show "is_subclass (exc (map_server_error X e)) SessionError" for e
    by (cases e) (use conn.emap_root in \<open>simp_all add: is_subclass_def\<close>)
  show "err_wf (map_server_error X e)" for e
    by (cases e) (simp_all add: conn.emap_wf)
qed (simp add: is_subclass_def)

text \<open>
  Errors of a session are no stream errors, and the maps of stream errors never make the exception of
  an operation that was interrupted locally.
\<close>

lemma session_error_no_stream: "exc (map_session_error X se) \<notin> {StreamClosedLocally, StreamClosedByPeer}"
proof -
  have ce: "exc (map_connection_error X ce) \<notin> {StreamClosedLocally, StreamClosedByPeer}" for ce
    using map_connection_error_class [of X ce] by auto
  then have "exc (map_send_datagram_error X de) \<notin> {StreamClosedLocally, StreamClosedByPeer}" for de
    by (cases de) simp_all
  with ce show ?thesis by (cases se) (simp_all split: web_transport_error.split)
qed

lemma stream_error_not_local:
  assumes "msg \<noteq> ''stream already closed''"
  shows "map_session_error X se \<noteq> new_err StreamClosedLocally msg"
    and "map_write_error X we \<noteq> new_err StreamClosedLocally msg"
    and "map_read_error X re \<noteq> new_err StreamClosedLocally msg"
proof -
  show se: "map_session_error X se \<noteq> new_err StreamClosedLocally msg" for se
    using session_error_no_stream [of X se] by auto
  show "map_write_error X we \<noteq> new_err StreamClosedLocally msg"
    using assms by (cases we) (auto simp: se dest: arg_cong [of _ _ exc] arg_cong [of _ _ args])
  show "map_read_error X re \<noteq> new_err StreamClosedLocally msg"
    using assms by (cases re) (auto simp: se dest: arg_cong [of _ _ exc] arg_cong [of _ _ args])
qed

end
