(* ===== verification/Send_Stream.thy ===== *)
theory Send_Stream
  imports Async_Core Error_Mapping
begin

text \<open>
  \<^verbatim>\<open>src/send_stream.rs\<close>: a QUIC send stream behind a mutex, with a cancellation token that
  \<^verbatim>\<open>reset()\<close> fires. The object is shared by the Python thread (\<^verbatim>\<open>reset\<close>, the priority setter)
  and by futures on the runtime (\<^verbatim>\<open>write\<close>, \<^verbatim>\<open>write_some\<close>, \<^verbatim>\<open>finish\<close>, \<^verbatim>\<open>wait_closed\<close>,
  \<^verbatim>\<open>__aexit__\<close>), so the model interleaves their atomic actions: every access to an atomic, the
  token, the mutex or the QUIC stream is one step of one task.

  The QUIC stream is third-party code. The model records the calls made on it (\<open>calls\<close>) and
  takes its answers from the events of a run; nothing is assumed of the answers, except that a
  call answers with its own result type.
\<close>

section \<open>The object and the calls on the QUIC stream\<close>

record ('mx, 'tok) send_stream =
  ss_inner :: 'mx
  ss_cancel :: 'tok
  ss_reset_code :: u32
  ss_priority :: i32
  ss_synced_priority :: i32

datatype send_call =
    Call_set_priority i32
  | Call_write_all bytes
  | Call_write bytes
  | Call_finish
  | Call_reset u32
  | Call_stopped

text \<open>What an awaited call returns; \<open>None\<close> in an event means the call is still pending.\<close>

datatype 'x send_resp =
    Resp_write_all "'x write_error + unit"
  | Resp_write "'x write_error + usize"
  | Resp_finish "unit + unit"
  | Resp_stopped "'x session_error + u32 option"

text \<open>\<^verbatim>\<open>SendStream::new\<close>, given what \<^verbatim>\<open>stream.priority()\<close> returns.\<close>

definition send_new :: "('mx, 'tok) tokio \<Rightarrow> unit + i32 \<Rightarrow> ('mx, 'tok) send_stream" where
  "send_new T p =
     (let priority = (case p of Inl _ \<Rightarrow> 0 | Inr v \<Rightarrow> v)
      in \<lparr>ss_inner = mutex_new T, ss_cancel = token_new T, ss_reset_code = 0,
          ss_priority = priority, ss_synced_priority = priority\<rparr>)"

section \<open>The closures passed to cancellable_write\<close>

datatype send_op = Op_write bytes | Op_write_some bytes | Op_finish | Op_wait_closed

text \<open>The one call each closure makes on the guarded stream.\<close>

fun write_fn :: "send_op \<Rightarrow> send_call" where
  "write_fn (Op_write data) = Call_write_all data"
| "write_fn (Op_write_some data) = Call_write data"
| "write_fn Op_finish = Call_finish"
| "write_fn Op_wait_closed = Call_stopped"

text \<open>
  What the closure returns to Python for an answer of that call; \<open>None\<close> for the answer of
  another call.
\<close>

fun write_fn_ret :: "'x ext \<Rightarrow> send_op \<Rightarrow> 'x send_resp \<Rightarrow> (py_err + py_val) option" where
  "write_fn_ret X (Op_write data) (Resp_write_all r) =
     Some (map_ok (\<lambda>_. PyNone) (map_err (map_write_error X) r))"
| "write_fn_ret X (Op_write_some data) (Resp_write r) =
     Some (map_ok (\<lambda>n. PyInt (uint n)) (map_err (map_write_error X) r))"
| "write_fn_ret X Op_finish (Resp_finish r) =
     Some (map_ok (\<lambda>_. PyNone)
       (map_err (\<lambda>_. new_err StreamClosedLocally ''stream already closed'') r))"
| "write_fn_ret X Op_wait_closed (Resp_stopped r) =
     Some (map_ok (\<lambda>c. case c of None \<Rightarrow> PyNone | Some n \<Rightarrow> PyInt (uint n))
       (map_err (map_session_error X) r))"
| "write_fn_ret X _ _ = None"

text \<open>\<^verbatim>\<open>guard.finish()\<close> is an ordinary call; the other three are awaited and may be pending.\<close>

fun awaits :: "send_op \<Rightarrow> bool" where
  "awaits Op_finish = False"
| "awaits _ = True"

section \<open>Program counters\<close>

text \<open>
  Where a task is. \<open>S_\<close>: the future made by \<^verbatim>\<open>cancellable_write\<close>. \<open>R_\<close>: \<^verbatim>\<open>reset\<close>. \<open>X_\<close>:
  \<^verbatim>\<open>__aexit__\<close>. \<open>P_\<close>: the priority setter. \<open>S_Drop\<close>: the result is known and the guard is
  about to be dropped.
\<close>

datatype send_body = B_Lock | B_Call

datatype send_pc =
    S_Idle
  | S_Select send_op send_body \<comment> \<open>about to poll the \<^verbatim>\<open>cancelled()\<close> branch\<close>
  | S_Poll send_op send_body   \<comment> \<open>not cancelled in this poll: polls the second branch\<close>
  | S_Load send_op             \<comment> \<open>has the guard, about to load \<^verbatim>\<open>priority\<close>\<close>
  | S_Loaded send_op i32       \<comment> \<open>about to compare with \<^verbatim>\<open>synced_priority\<close>\<close>
  | S_SyncStore send_op i32    \<comment> \<open>about to store \<^verbatim>\<open>synced_priority\<close>\<close>
  | S_Run send_op              \<comment> \<open>about to run the closure\<close>
  | S_CancelLock               \<comment> \<open>cancelled: waits for the lock\<close>
  | S_CancelHeld
  | S_CancelReset u32
  | S_Drop "py_err + py_val"
  | S_Done "py_err + py_val"
  | S_Aborted                  \<comment> \<open>the future was dropped by asyncio\<close>
  | R_Check u32 | R_Store u32 | R_Cancel u32 | R_TryLock u32 | R_Reset u32
  | X_Store | X_Cancel | X_LockReset | X_Reset | X_LockFinish | X_Finish
  | P_Store i32 | P_TryLock i32 | P_Set i32 | P_SyncStore i32

definition reset_locally :: py_err where
  "reset_locally = new_err StreamClosedLocally ''stream reset locally''"

definition already_closed :: py_err where
  "already_closed = new_err StreamClosedLocally ''stream already closed''"

section \<open>One atomic step of a task\<close>

text \<open>
  The next program counter, the object, and the call made on the QUIC stream, if any; \<open>None\<close>
  when the event's answer does not fit the task's position.
\<close>

type_synonym ('mx, 'tok) send_res = "(send_pc \<times> ('mx, 'tok) send_stream \<times> send_call list) option"

text \<open>
  \<^verbatim>\<open>cancellable_write\<close>: a biased \<^verbatim>\<open>select!\<close> polls \<^verbatim>\<open>cancelled()\<close> first. When that branch wins, the
  other future is dropped (with the guard, if it has it) before the handler runs.
\<close>

definition cancellable_write ::
  "('mx, 'tok) tokio \<Rightarrow> 'x ext \<Rightarrow> 'x send_resp option \<Rightarrow> send_pc \<Rightarrow>
   ('mx, 'tok) send_stream \<Rightarrow> ('mx, 'tok) send_res" where
  "cancellable_write T X r pc s =
     (case pc of
        S_Select op b \<Rightarrow>
          (if is_cancelled T (ss_cancel s)
           then Some (S_CancelLock,
             (case b of B_Lock \<Rightarrow> s | B_Call \<Rightarrow> s\<lparr>ss_inner := unlock T (ss_inner s)\<rparr>), [])
           else Some (S_Poll op b, s, []))
      | S_Poll op B_Lock \<Rightarrow>
          (case try_lock T (ss_inner s) of
             None \<Rightarrow> Some (S_Select op B_Lock, s, [])
           | Some m \<Rightarrow> Some (S_Load op, s\<lparr>ss_inner := m\<rparr>, []))
      | S_Load op \<Rightarrow> Some (S_Loaded op (ss_priority s), s, [])
      | S_Loaded op desired \<Rightarrow>
          (if desired \<noteq> ss_synced_priority s
           then Some (S_SyncStore op desired, s, [Call_set_priority desired])
           else Some (S_Run op, s, []))
      | S_SyncStore op desired \<Rightarrow> Some (S_Run op, s\<lparr>ss_synced_priority := desired\<rparr>, [])
      | S_Run op \<Rightarrow>
          (case r of
             None \<Rightarrow> if awaits op then Some (S_Select op B_Call, s, [write_fn op]) else None
           | Some a \<Rightarrow> map_option (\<lambda>res. (S_Drop res, s, [write_fn op])) (write_fn_ret X op a))
      | S_Poll op B_Call \<Rightarrow>
          (case r of
             None \<Rightarrow> Some (S_Select op B_Call, s, [])
           | Some a \<Rightarrow> map_option (\<lambda>res. (S_Drop res, s, [])) (write_fn_ret X op a))
      | S_CancelLock \<Rightarrow>
          (case try_lock T (ss_inner s) of
             None \<Rightarrow> Some (S_CancelLock, s, [])
           | Some m \<Rightarrow> Some (S_CancelHeld, s\<lparr>ss_inner := m\<rparr>, []))
      | S_CancelHeld \<Rightarrow> Some (S_CancelReset (ss_reset_code s), s, [])
      | S_CancelReset code \<Rightarrow> Some (S_Drop (Inl reset_locally), s, [Call_reset code])
      | _ \<Rightarrow> None)"

definition drop_guard ::
  "('mx, 'tok) tokio \<Rightarrow> py_err + py_val \<Rightarrow> ('mx, 'tok) send_stream \<Rightarrow> ('mx, 'tok) send_res" where
  "drop_guard T res s = Some (S_Done res, s\<lparr>ss_inner := unlock T (ss_inner s)\<rparr>, [])"

definition send_reset ::
  "('mx, 'tok) tokio \<Rightarrow> send_pc \<Rightarrow> ('mx, 'tok) send_stream \<Rightarrow> ('mx, 'tok) send_res" where
  "send_reset T pc s =
     (case pc of
        R_Check error_code \<Rightarrow>
          (if is_cancelled T (ss_cancel s) then Some (S_Done (Inl already_closed), s, [])
           else Some (R_Store error_code, s, []))
      | R_Store error_code \<Rightarrow> Some (R_Cancel error_code, s\<lparr>ss_reset_code := error_code\<rparr>, [])
      | R_Cancel error_code \<Rightarrow>
          Some (R_TryLock error_code, s\<lparr>ss_cancel := token_cancel T (ss_cancel s)\<rparr>, [])
      | R_TryLock error_code \<Rightarrow>
          (case try_lock T (ss_inner s) of
             None \<Rightarrow> Some (S_Done (Inr PyNone), s, [])
           | Some m \<Rightarrow> Some (R_Reset error_code, s\<lparr>ss_inner := m\<rparr>, []))
      | R_Reset error_code \<Rightarrow> Some (S_Drop (Inr PyNone), s, [Call_reset error_code])
      | _ \<Rightarrow> None)"

definition send_aexit ::
  "('mx, 'tok) tokio \<Rightarrow> send_pc \<Rightarrow> ('mx, 'tok) send_stream \<Rightarrow> ('mx, 'tok) send_res" where
  "send_aexit T pc s =
     (case pc of
        X_Store \<Rightarrow> Some (X_Cancel, s\<lparr>ss_reset_code := 0\<rparr>, [])
      | X_Cancel \<Rightarrow> Some (X_LockReset, s\<lparr>ss_cancel := token_cancel T (ss_cancel s)\<rparr>, [])
      | X_LockReset \<Rightarrow>
          (case try_lock T (ss_inner s) of
             None \<Rightarrow> Some (X_LockReset, s, [])
           | Some m \<Rightarrow> Some (X_Reset, s\<lparr>ss_inner := m\<rparr>, []))
      | X_Reset \<Rightarrow> Some (S_Drop (Inr PyNone), s, [Call_reset 0])
      | X_LockFinish \<Rightarrow>
          (case try_lock T (ss_inner s) of
             None \<Rightarrow> Some (X_LockFinish, s, [])
           | Some m \<Rightarrow> Some (X_Finish, s\<lparr>ss_inner := m\<rparr>, []))
      | X_Finish \<Rightarrow> Some (S_Drop (Inr PyNone), s, [Call_finish])
      | _ \<Rightarrow> None)"

definition send_set_priority ::
  "('mx, 'tok) tokio \<Rightarrow> send_pc \<Rightarrow> ('mx, 'tok) send_stream \<Rightarrow> ('mx, 'tok) send_res" where
  "send_set_priority T pc s =
     (case pc of
        P_Store v \<Rightarrow> Some (P_TryLock v, s\<lparr>ss_priority := v\<rparr>, [])
      | P_TryLock v \<Rightarrow>
          (case try_lock T (ss_inner s) of
             None \<Rightarrow> Some (S_Done (Inr PyNone), s, [])
           | Some m \<Rightarrow> Some (P_Set v, s\<lparr>ss_inner := m\<rparr>, []))
      | P_Set v \<Rightarrow> Some (P_SyncStore v, s, [Call_set_priority v])
      | P_SyncStore v \<Rightarrow> Some (S_Drop (Inr PyNone), s\<lparr>ss_synced_priority := v\<rparr>, [])
      | _ \<Rightarrow> None)"

text \<open>The priority getter reads the atomic only.\<close>

definition send_priority :: "('mx, 'tok) send_stream \<Rightarrow> i32" where
  "send_priority s = ss_priority s"

definition send_pc_step ::
  "('mx, 'tok) tokio \<Rightarrow> 'x ext \<Rightarrow> 'x send_resp option \<Rightarrow> send_pc \<Rightarrow>
   ('mx, 'tok) send_stream \<Rightarrow> ('mx, 'tok) send_res" where
  "send_pc_step T X r pc s =
     (case pc of
        S_Drop res \<Rightarrow> drop_guard T res s
      | R_Check _ \<Rightarrow> send_reset T pc s
      | R_Store _ \<Rightarrow> send_reset T pc s
      | R_Cancel _ \<Rightarrow> send_reset T pc s
      | R_TryLock _ \<Rightarrow> send_reset T pc s
      | R_Reset _ \<Rightarrow> send_reset T pc s
      | X_Store \<Rightarrow> send_aexit T pc s
      | X_Cancel \<Rightarrow> send_aexit T pc s
      | X_LockReset \<Rightarrow> send_aexit T pc s
      | X_Reset \<Rightarrow> send_aexit T pc s
      | X_LockFinish \<Rightarrow> send_aexit T pc s
      | X_Finish \<Rightarrow> send_aexit T pc s
      | P_Store _ \<Rightarrow> send_set_priority T pc s
      | P_TryLock _ \<Rightarrow> send_set_priority T pc s
      | P_Set _ \<Rightarrow> send_set_priority T pc s
      | P_SyncStore _ \<Rightarrow> send_set_priority T pc s
      | _ \<Rightarrow> cancellable_write T X r pc s)"

section \<open>The system of tasks on one stream\<close>

datatype send_method =
    M_write bytes | M_write_some bytes | M_finish | M_wait_closed
  | M_reset u32 | M_aexit bool | M_set_priority i32

text \<open>The entry point of each method; \<open>M_aexit\<close> has whether an exception is in flight.\<close>

fun send_entry :: "send_method \<Rightarrow> send_pc" where
  "send_entry (M_write data) = S_Select (Op_write data) B_Lock"
| "send_entry (M_write_some data) = S_Select (Op_write_some data) B_Lock"
| "send_entry M_finish = S_Select Op_finish B_Lock"
| "send_entry M_wait_closed = S_Select Op_wait_closed B_Lock"
| "send_entry (M_reset error_code) = R_Check error_code"
| "send_entry (M_aexit has_exception) = (if has_exception then X_Store else X_LockFinish)"
| "send_entry (M_set_priority v) = P_Store v"

text \<open>
  Cancelling the asyncio future drops the Rust future at an await point, with the guard if it
  is held there.
\<close>

definition send_abort ::
  "('mx, 'tok) tokio \<Rightarrow> send_pc \<Rightarrow> ('mx, 'tok) send_stream \<Rightarrow> ('mx, 'tok) send_stream option" where
  "send_abort T pc s =
     (case pc of
        S_Select op B_Lock \<Rightarrow> Some s
      | S_Select op B_Call \<Rightarrow> Some (s\<lparr>ss_inner := unlock T (ss_inner s)\<rparr>)
      | S_CancelLock \<Rightarrow> Some s
      | X_LockReset \<Rightarrow> Some s
      | X_LockFinish \<Rightarrow> Some s
      | _ \<Rightarrow> None)"

record ('mx, 'tok) send_sys =
  sobj :: "('mx, 'tok) send_stream"
  stask :: "nat \<Rightarrow> send_pc"
  scalls :: "send_call list"

datatype 'x send_event =
    Spawn nat send_method
  | Step nat "'x send_resp option"
  | Abort nat

fun send_step ::
  "('mx, 'tok) tokio \<Rightarrow> 'x ext \<Rightarrow> 'x send_event \<Rightarrow> ('mx, 'tok) send_sys \<Rightarrow>
   ('mx, 'tok) send_sys option" where
  "send_step T X (Spawn i m) s =
     (if stask s i = S_Idle then Some (s\<lparr>stask := (stask s)(i := send_entry m)\<rparr>) else None)"
| "send_step T X (Step i r) s =
     map_option (\<lambda>(pc, o', cs). \<lparr>sobj = o', stask = (stask s)(i := pc), scalls = scalls s @ cs\<rparr>)
       (send_pc_step T X r (stask s i) (sobj s))"
| "send_step T X (Abort i) s =
     map_option (\<lambda>o'. s\<lparr>sobj := o', stask := (stask s)(i := S_Aborted)\<rparr>)
       (send_abort T (stask s i) (sobj s))"

definition send_init :: "('mx, 'tok) tokio \<Rightarrow> unit + i32 \<Rightarrow> ('mx, 'tok) send_sys" where
  "send_init T p = \<lparr>sobj = send_new T p, stask = (\<lambda>_. S_Idle), scalls = []\<rparr>"

definition send_holds :: "send_pc \<Rightarrow> bool" where
  "send_holds pc = (case pc of
       S_Select op b \<Rightarrow> b = B_Call
     | S_Poll op b \<Rightarrow> b = B_Call
     | S_Load op \<Rightarrow> True
     | S_Loaded op d \<Rightarrow> True
     | S_SyncStore op d \<Rightarrow> True
     | S_Run op \<Rightarrow> True
     | S_CancelHeld \<Rightarrow> True
     | S_CancelReset c \<Rightarrow> True
     | S_Drop r \<Rightarrow> True
     | R_Reset c \<Rightarrow> True
     | X_Reset \<Rightarrow> True
     | X_Finish \<Rightarrow> True
     | P_Set v \<Rightarrow> True
     | P_SyncStore v \<Rightarrow> True
     | _ \<Rightarrow> False)"

abbreviation slocked :: "('mx, 'tok) tokio \<Rightarrow> ('mx, 'tok) send_sys \<Rightarrow> bool" where
  "slocked T s \<equiv> locked T (ss_inner (sobj s))"

abbreviation scancelled :: "('mx, 'tok) tokio \<Rightarrow> ('mx, 'tok) send_sys \<Rightarrow> bool" where
  "scancelled T s \<equiv> is_cancelled T (ss_cancel (sobj s))"

end
