(* ===== verification/Send_Safety.thy ===== *)
theory Send_Safety
  imports Send_Stream
begin

text \<open>
  Properties of the send stream that hold in every interleaving: the guard protocol, the fate of
  operations started after a reset, the codes and priorities sent, and that after a reset every
  pending operation can finish without the peer.
\<close>

section \<open>Case analysis of steps\<close>

lemmas send_step_defs [step_simps] =
  send_pc_step_def cancellable_write_def drop_guard_def send_reset_def send_aexit_def
  send_set_priority_def

lemmas send_splits = if_splits option.splits send_body.splits

text \<open>Every system step moves one task.\<close>

lemma send_step_cases [consumes 1, case_names Spawn Step Abort]:
  assumes "send_step T X e s = Some t"
  obtains i m where "e = Spawn i m" "stask s i = S_Idle"
      "t = s\<lparr>stask := (stask s)(i := send_entry m)\<rparr>"
  | i r pc o' cs where "e = Step i r" "send_pc_step T X r (stask s i) (sobj s) = Some (pc, o', cs)"
      "t = \<lparr>sobj = o', stask = (stask s)(i := pc), scalls = scalls s @ cs\<rparr>"
  | i o' where "e = Abort i" "send_abort T (stask s i) (sobj s) = Some o'"
      "t = s\<lparr>sobj := o', stask := (stask s)(i := S_Aborted)\<rparr>"
  using assms by (cases e) (auto split: if_splits)

section \<open>The guard protocol\<close>

lemma send_entry_no_guard: "\<not> send_holds (send_entry m)"
  by (cases m) (simp_all add: send_holds_def)

lemma send_pc_guard:
  assumes "tokio_ok T" "send_pc_step T X r pc s = Some (pc', s', cs)"
  shows "send_holds pc' = send_holds pc \<and> locked T (ss_inner s') = locked T (ss_inner s)
    \<or> \<not> send_holds pc \<and> \<not> locked T (ss_inner s) \<and> send_holds pc' \<and> locked T (ss_inner s')
    \<or> send_holds pc \<and> \<not> send_holds pc' \<and> (locked T (ss_inner s) \<longrightarrow> \<not> locked T (ss_inner s'))"
  using assms(2)
  by (cases pc) (auto simp: send_step_defs send_holds_def split: send_splits
      dest: try_lock_locked [OF assms(1)] try_lock_free unlock_free [OF assms(1)])

lemma send_abort_guard:
  assumes "tokio_ok T" "send_abort T pc s = Some s'"
  shows "\<not> send_holds pc \<and> s' = s \<or>
    send_holds pc \<and> s' = s\<lparr>ss_inner := unlock T (ss_inner s)\<rparr>"
  using assms(2) by (cases pc) (auto simp: send_abort_def send_holds_def split: send_splits)


text \<open>
  Tasks that can only end in the cancelled outcome once the token is cancelled: an operation at
  the head of its \<^verbatim>\<open>select!\<close>, and everything in the cancelled arm.
\<close>

definition send_doomed :: "send_pc \<Rightarrow> bool" where
  "send_doomed pc = (case pc of
       S_Select op b \<Rightarrow> True
     | S_CancelLock \<Rightarrow> True
     | S_CancelHeld \<Rightarrow> True
     | S_CancelReset c \<Rightarrow> True
     | S_Drop res \<Rightarrow> res = Inl reset_locally
     | S_Done res \<Rightarrow> res = Inl reset_locally
     | S_Aborted \<Rightarrow> True
     | _ \<Rightarrow> False)"

lemma send_pc_cancelled:
  assumes "tokio_ok T" "send_pc_step T X r pc s = Some (pc', s', cs)" "is_cancelled T (ss_cancel s)"
  shows "is_cancelled T (ss_cancel s')"
  using assms(2,3)
  by (cases pc) (auto simp: send_step_defs token_cancelled [OF assms(1)] split: send_splits)

lemma send_pc_doomed:
  assumes "send_pc_step T X r pc s = Some (pc', s', cs)" "is_cancelled T (ss_cancel s)"
    "send_doomed pc"
  shows "send_doomed pc' \<and>
    (pc' = S_Drop (Inl reset_locally) \<longrightarrow> (\<exists>c. cs = [Call_reset c]))"
  using assms by (cases pc) (auto simp: send_step_defs send_doomed_def split: send_splits)

lemma send_abort_cancel: "send_abort T pc s = Some s' \<Longrightarrow> ss_cancel s' = ss_cancel s"
  by (cases pc) (auto simp: send_abort_def split: send_splits)

interpretation snd: cancel_protocol "tokio_ok T" "send_step T X" "\<lambda>s. \<exists>p. s = send_init T p"
  "\<lambda>s i. send_holds (stask s i)" "slocked T" "scancelled T" "\<lambda>s i. send_doomed (stask s i)"
  for T X
proof
  fix s :: "('a, 'b) send_sys" and i
  assume "tokio_ok T" "\<exists>p. s = send_init T p"
  then show "\<not> slocked T s \<and> \<not> send_holds (stask s i)"
    using tokio_new [of T] by (auto simp: send_init_def send_new_def send_holds_def Let_def)
next
  fix e and s t :: "('a, 'b) send_sys"
  assume ok: "tokio_ok T" and st: "send_step T X e s = Some t"
  from st show "\<exists>i. (\<forall>j. j \<noteq> i \<longrightarrow> send_holds (stask t j) = send_holds (stask s j)) \<and>
      (send_holds (stask t i) = send_holds (stask s i) \<and> slocked T t = slocked T s
       \<or> \<not> send_holds (stask s i) \<and> \<not> slocked T s \<and> send_holds (stask t i) \<and> slocked T t
       \<or> send_holds (stask s i) \<and> \<not> send_holds (stask t i) \<and> (slocked T s \<longrightarrow> \<not> slocked T t))"
  proof (cases rule: send_step_cases)
    case (Spawn i m)
    then show ?thesis using send_entry_no_guard [of m]
      by (intro exI [of _ i]) (simp add: send_holds_def [of S_Idle])
  next
    case (Step i r pc o' cs)
    then show ?thesis using send_pc_guard [OF ok Step(2)] by (intro exI [of _ i]) simp
  next
    case (Abort i o')
    then show ?thesis using send_abort_guard [OF ok Abort(2)]
      by (intro exI [of _ i]) (auto simp: send_holds_def [of S_Aborted] dest: unlock_free [OF ok])
  qed
next
  fix e and s t :: "('a, 'b) send_sys"
  assume ok: "tokio_ok T" and st: "send_step T X e s = Some t" and c: "scancelled T s"
  from st show "scancelled T t"
    by (cases rule: send_step_cases) (use c in \<open>auto dest: send_pc_cancelled [OF ok] send_abort_cancel\<close>)
next
  fix e and s t :: "('a, 'b) send_sys" and i
  assume ok: "tokio_ok T" and st: "send_step T X e s = Some t"
    and c: "scancelled T s" "send_doomed (stask s i)"
  from st show "send_doomed (stask t i)"
    by (cases rule: send_step_cases)
      (use c in \<open>auto simp: send_doomed_def [of S_Idle] send_doomed_def [of S_Aborted]
         dest: send_pc_doomed\<close>)
qed

text \<open>Calls are only ever appended.\<close>

lemma send_step_calls: "send_step T X e s = Some t \<Longrightarrow> \<exists>cs. scalls t = scalls s @ cs"
  by (cases rule: send_step_cases) auto

text \<open>
  A doomed task that has its result has sent a reset since the token was cancelled, when \<open>n\<close>
  calls had been made.
\<close>

definition send_reset_since :: "nat \<Rightarrow> ('mx, 'tok) send_sys \<Rightarrow> bool" where
  "send_reset_since n s \<longleftrightarrow> n \<le> length (scalls s) \<and> (\<exists>c. Call_reset c \<in> set (drop n (scalls s)))"

definition send_has_result :: "send_pc \<Rightarrow> bool" where
  "send_has_result pc = (case pc of S_Drop r \<Rightarrow> True | S_Done r \<Rightarrow> True | _ \<Rightarrow> False)"

lemma send_reset_since_mono: "send_step T X e s = Some t \<Longrightarrow> send_reset_since n s \<Longrightarrow> send_reset_since n t"
  using send_step_calls [of T X e s t] by (auto simp: send_reset_since_def)

lemma send_reset_since_call:
  "n \<le> length (scalls s) \<Longrightarrow> scalls t = scalls s @ [Call_reset c] \<Longrightarrow> send_reset_since n t"
  by (auto simp: send_reset_since_def)

lemma send_pc_result:
  assumes "send_pc_step T X r pc s = Some (pc', s', cs)" "is_cancelled T (ss_cancel s)"
    "send_doomed pc" "send_has_result pc'" "\<not> send_has_result pc"
  shows "\<exists>c. cs = [Call_reset c]"
  using assms
  by (cases pc) (auto simp: send_step_defs send_doomed_def send_has_result_def split: send_splits)

lemma send_doomed_reset_step:
  assumes st: "send_step T X e s = Some t" and c: "scancelled T s" "send_doomed (stask s i)"
    and n: "n \<le> length (scalls s)" and old: "send_has_result (stask s i) \<Longrightarrow> send_reset_since n s"
    and new: "send_has_result (stask t i)"
  shows "send_reset_since n t"
proof (cases "send_has_result (stask s i)")
  case True
  with old st show ?thesis by (blast intro: send_reset_since_mono)
next
  case False
  from st show ?thesis
  proof (cases rule: send_step_cases)
    case (Spawn j m)
    with False new show ?thesis by (cases m) (auto simp: send_has_result_def split: if_splits)
  next
    case (Step j r pc o' cs)
    with False new have "j = i" by (auto split: if_splits)
    with Step False new c send_pc_result [OF Step(2)] obtain d where "cs = [Call_reset d]" by auto
    with Step n show ?thesis by (auto intro: send_reset_since_call)
  next
    case (Abort j o')
    with False new show ?thesis by (auto simp: send_has_result_def split: if_splits)
  qed
qed

lemma send_doomed_sends_reset:
  assumes "tokio_ok T" "reach (send_step T X) s t" "scancelled T s" "stask s i = S_Select op b"
    "stask t i = S_Done res"
  shows "res = Inl reset_locally \<and> send_reset_since (length (scalls s)) t"
proof -
  let ?n = "length (scalls s)"
  let ?I = "\<lambda>u. scancelled T u \<and> send_doomed (stask u i) \<and> ?n \<le> length (scalls u) \<and>
    (send_has_result (stask u i) \<longrightarrow> send_reset_since ?n u)"
  have "?I t"
  proof (rule reach_invariant [OF assms(2), where I = ?I])
    show "?I s" using assms(3,4) by (simp add: send_doomed_def send_has_result_def)
  next
    fix u e v
    assume I: "?I u" and st: "send_step T X e u = Some v"
    show "?I v"
      using I snd.cancelled_step [OF assms(1) st] snd.doomed_step [OF assms(1) st]
        send_step_calls [OF st] send_doomed_reset_step [OF st, of i ?n] by auto
  qed
  with assms(5) show ?thesis by (simp add: send_doomed_def send_has_result_def)
qed

section \<open>Reset codes\<close>

text \<open>The codes a run asks for: those given to \<^verbatim>\<open>reset\<close>, and 0 for an exceptional exit.\<close>

definition requested_codes :: "'x send_event list \<Rightarrow> u32 set" where
  "requested_codes es = {c. \<exists>i. Spawn i (M_reset c) \<in> set es} \<union>
     {c. c = 0 \<and> (\<exists>i. Spawn i (M_aexit True) \<in> set es)}"

fun call_codes :: "send_call \<Rightarrow> u32 set" where
  "call_codes (Call_reset c) = {c}"
| "call_codes _ = {}"

definition pc_codes :: "send_pc \<Rightarrow> u32 set" where
  "pc_codes pc = (case pc of
       R_Check c \<Rightarrow> {c} | R_Store c \<Rightarrow> {c} | R_Cancel c \<Rightarrow> {c} | R_TryLock c \<Rightarrow> {c} | R_Reset c \<Rightarrow> {c}
     | X_Store \<Rightarrow> {0} | X_Cancel \<Rightarrow> {0} | X_LockReset \<Rightarrow> {0} | X_Reset \<Rightarrow> {0}
     | S_CancelReset c \<Rightarrow> {c}
     | _ \<Rightarrow> {})"

definition has_stored :: "send_pc \<Rightarrow> bool" where
  "has_stored pc = (case pc of R_Cancel c \<Rightarrow> True | X_Cancel \<Rightarrow> True | _ \<Rightarrow> False)"

definition in_cancel_arm :: "send_pc \<Rightarrow> bool" where
  "in_cancel_arm pc = (case pc of S_CancelLock \<Rightarrow> True | S_CancelHeld \<Rightarrow> True | _ \<Rightarrow> False)"

text \<open>
  The token is cancelled only after a requested code was stored, so the cancelled arm never reads
  the initial value.
\<close>

definition code_inv :: "('mx, 'tok) tokio \<Rightarrow> u32 set \<Rightarrow> ('mx, 'tok) send_sys \<Rightarrow> bool" where
  "code_inv T C s \<longleftrightarrow>
     (\<forall>i. pc_codes (stask s i) \<subseteq> C) \<and>
     (\<forall>i. has_stored (stask s i) \<longrightarrow> ss_reset_code (sobj s) \<in> C) \<and>
     (\<forall>i. in_cancel_arm (stask s i) \<longrightarrow> scancelled T s) \<and>
     (scancelled T s \<longrightarrow> ss_reset_code (sobj s) \<in> C) \<and>
     (\<forall>c \<in> set (scalls s). call_codes c \<subseteq> C)"

lemmas code_defs = pc_codes_def has_stored_def in_cancel_arm_def

lemma send_pc_code:
  assumes "tokio_ok T" "send_pc_step T X r pc s = Some (pc', s', cs)"
    "pc_codes pc \<subseteq> C" "has_stored pc \<longrightarrow> ss_reset_code s \<in> C"
    "in_cancel_arm pc \<longrightarrow> is_cancelled T (ss_cancel s)"
    "is_cancelled T (ss_cancel s) \<longrightarrow> ss_reset_code s \<in> C"
  shows "pc_codes pc' \<subseteq> C \<and> (has_stored pc' \<longrightarrow> ss_reset_code s' \<in> C)
    \<and> (in_cancel_arm pc' \<longrightarrow> is_cancelled T (ss_cancel s'))
    \<and> (is_cancelled T (ss_cancel s') \<longrightarrow> ss_reset_code s' \<in> C)
    \<and> (ss_reset_code s \<in> C \<longrightarrow> ss_reset_code s' \<in> C)
    \<and> (\<forall>c \<in> set cs. call_codes c \<subseteq> C)"
proof (cases pc)
  case (S_Run op)
  with assms show ?thesis
    by (cases op) (auto simp: send_step_defs code_defs split: send_splits)
qed (use assms in \<open>auto simp: send_step_defs code_defs split: send_splits\<close>)

lemma send_abort_code:
  "send_abort T pc s = Some s' \<Longrightarrow> ss_reset_code s' = ss_reset_code s \<and> ss_cancel s' = ss_cancel s"
  by (cases pc) (auto simp: send_abort_def split: send_splits)

lemma code_inv_step:
  assumes ok: "tokio_ok T" and inv: "code_inv T C s" and st: "send_step T X e s = Some t"
    and sub: "requested_codes [e] \<subseteq> C"
  shows "code_inv T C t"
  using st
proof (cases rule: send_step_cases)
  case (Spawn i m)
  have "pc_codes (send_entry m) \<subseteq> C" "\<not> has_stored (send_entry m)" "\<not> in_cancel_arm (send_entry m)"
    using sub Spawn(1) by (cases m; auto simp: code_defs requested_codes_def)+
  with Spawn inv show ?thesis by (auto simp: code_inv_def)
next
  case (Step i r pc o' cs)
  from inv have "pc_codes (stask s i) \<subseteq> C" "has_stored (stask s i) \<longrightarrow> ss_reset_code (sobj s) \<in> C"
    "in_cancel_arm (stask s i) \<longrightarrow> scancelled T s" "scancelled T s \<longrightarrow> ss_reset_code (sobj s) \<in> C"
    by (auto simp: code_inv_def)
  note n = send_pc_code [OF ok Step(2) this]
  have "scancelled T s \<longrightarrow> scancelled T t"
    using send_pc_cancelled [OF ok Step(2)] Step(3) by simp
  with n Step(3) inv show ?thesis by (auto simp: code_inv_def)
next
  case (Abort i o')
  with inv send_abort_code [OF Abort(2)] show ?thesis
    by (auto simp: code_inv_def code_defs)
qed

lemma code_inv_mono: "code_inv T C s \<Longrightarrow> C \<subseteq> D \<Longrightarrow> code_inv T D s"
  unfolding code_inv_def by blast

lemma code_inv_run:
  assumes "tokio_ok T" "run (send_step T X) (send_init T p) es = Some t"
  shows "code_inv T (requested_codes es) t"
  using assms(2)
proof (induction es arbitrary: t rule: rev_induct)
  case Nil
  then show ?case using tokio_new [OF assms(1)]
    by (auto simp: code_inv_def send_init_def send_new_def code_defs Let_def)
next
  case (snoc e es)
  then obtain u where u: "run (send_step T X) (send_init T p) es = Some u" "send_step T X e u = Some t"
    by (auto simp: run_append bind_eq_Some_conv elim!: run_Cons_SomeE)
  have "requested_codes (es @ [e]) = requested_codes es \<union> requested_codes [e]"
    by (auto simp: requested_codes_def)
  with snoc.IH [OF u(1)] have "code_inv T (requested_codes (es @ [e])) u"
    by (auto intro: code_inv_mono)
  then show ?case
    by (rule code_inv_step [OF assms(1) _ u(2)]) (auto simp: requested_codes_def)
qed

section \<open>When a reset reaches the stream\<close>

text \<open>
  \<^verbatim>\<open>reset()\<close> sends RESET_STREAM itself only if the lock is free; otherwise it leaves that to the
  task that has the guard. A task \<open>owes\<close> the reset while it has the guard, is in the cancelled
  arm, or is about to try the lock.
\<close>

definition owes_reset :: "send_pc \<Rightarrow> bool" where
  "owes_reset pc \<longleftrightarrow> send_holds pc \<or> in_cancel_arm pc \<or>
     (case pc of R_TryLock c \<Rightarrow> True | X_LockReset \<Rightarrow> True | _ \<Rightarrow> False)"

definition reset_sent :: "('mx, 'tok) send_sys \<Rightarrow> bool" where
  "reset_sent s \<longleftrightarrow> (\<exists>c. Call_reset c \<in> set (scalls s))"

text \<open>
  A late event: the token is cancelled, no reset was sent, and a task that owes it goes away,
  because its call completed in a poll that had begun before the cancellation, or because
  asyncio dropped its future.
\<close>

fun send_late :: "('mx, 'tok) tokio \<Rightarrow> 'x send_event \<Rightarrow> ('mx, 'tok) send_sys \<Rightarrow> bool" where
  "send_late T (Spawn i m) s = False"
| "send_late T (Step i r) s =
     (scancelled T s \<and> \<not> reset_sent s \<and> (case stask s i of S_Drop _ \<Rightarrow> True | _ \<Rightarrow> False))"
| "send_late T (Abort i) s = (scancelled T s \<and> \<not> reset_sent s \<and> owes_reset (stask s i))"

definition send_quiet :: "send_pc \<Rightarrow> bool" where
  "send_quiet pc = (case pc of S_Idle \<Rightarrow> True | S_Done r \<Rightarrow> True | S_Aborted \<Rightarrow> True | _ \<Rightarrow> False)"

lemma send_quiet_owes: "send_quiet pc \<Longrightarrow> \<not> owes_reset pc"
  by (cases pc) (simp_all add: send_quiet_def owes_reset_def send_holds_def in_cancel_arm_def)

lemmas owes_defs = owes_reset_def send_holds_def in_cancel_arm_def

lemma send_pc_owes:
  assumes "tokio_ok T" "send_pc_step T X r pc s = Some (pc', s', cs)" "is_cancelled T (ss_cancel s')"
    "owes_reset pc \<or> \<not> is_cancelled T (ss_cancel s)" "\<nexists>res. pc = S_Drop res"
  shows "owes_reset pc' \<or> (\<exists>c. cs = [Call_reset c]) \<or>
    locked T (ss_inner s) \<and> s' = s \<and> cs = [] \<and> \<not> send_holds pc \<and> is_cancelled T (ss_cancel s)"
  using assms(2-)
  by (cases pc) (auto simp: send_step_defs owes_defs locked_def split: send_splits)

lemma reset_sent_mono: "send_step T X e s = Some t \<Longrightarrow> reset_sent s \<Longrightarrow> reset_sent t"
  using send_step_calls [of T X e s t] by (auto simp: reset_sent_def)

lemma send_owes_step:
  assumes ok: "tokio_ok T" and st: "send_step T X e s = Some t" and late: "\<not> send_late T e s"
    and c: "scancelled T s" and n: "\<not> reset_sent t" and o: "owes_reset (stask s j)"
  shows "owes_reset (stask t j) \<or>
    slocked T s \<and> \<not> send_holds (stask s j) \<and> (\<forall>k. send_holds (stask t k) = send_holds (stask s k))"
  using st
proof (cases rule: send_step_cases)
  case (Spawn i m)
  with o have "j \<noteq> i" by (auto simp: owes_defs)
  with Spawn o show ?thesis by simp
next
  case (Abort i o')
  have "\<not> reset_sent s" using n reset_sent_mono [OF st] by blast
  with late c o Abort(1) have "j \<noteq> i" by auto
  with Abort o show ?thesis by simp
next
  case (Step i r pc o' cs)
  show ?thesis
  proof (cases "i = j")
    case True
    have "\<not> reset_sent s" using n reset_sent_mono [OF st] by blast
    with late c Step(1) have "\<nexists>res. stask s i = S_Drop res" by auto
    moreover have "is_cancelled T (ss_cancel o')" by (rule send_pc_cancelled [OF ok Step(2) c])
    moreover have "\<forall>c. cs \<noteq> [Call_reset c]" using n Step(3) by (auto simp: reset_sent_def)
    ultimately show ?thesis
      using send_pc_owes [OF ok Step(2)] o True Step(3) by (auto simp: owes_reset_def [of pc])
  qed (use Step o in simp)
qed

lemma send_cancel_owes:
  assumes ok: "tokio_ok T" and st: "send_step T X e s = Some t"
    and c: "\<not> scancelled T s" "scancelled T t"
  shows "\<exists>i. owes_reset (stask t i)"
  using st
proof (cases rule: send_step_cases)
  case (Step i r pc o' cs)
  have "owes_reset pc"
    using Step(2,3) c by (cases "stask s i") (auto simp: send_step_defs owes_defs split: send_splits)
  with Step(3) show ?thesis by (intro exI [of _ i]) simp
qed (use c in \<open>auto dest: send_abort_cancel\<close>)

interpretation snd: delivery_protocol "tokio_ok T" "send_step T X" "\<lambda>s. \<exists>p. s = send_init T p"
  "\<lambda>s i. send_holds (stask s i)" "slocked T" "scancelled T" "\<lambda>s i. owes_reset (stask s i)"
  reset_sent "send_late T"
  for T X
proof
  show "\<not> scancelled T s" if "tokio_ok T" "\<exists>p. s = send_init T p" for s
    using that tokio_new [of T] by (auto simp: send_init_def send_new_def Let_def)
  show "owes_reset (stask s i)" if "send_holds (stask s i)" for s i
    using that by (simp add: owes_reset_def)
qed (fact reset_sent_mono send_cancel_owes send_owes_step)+

text \<open>
  Whose fault it is. A task \<open>closes\<close> the stream when its method is a reset or an exceptional exit; the
  others are bystanders. A task is overtaken when the token is cancelled, RESET_STREAM was not sent,
  and a bystander that has not raised releases the guard, or asyncio drops a future that owes the
  reset. A task that closes the stream and one that raises release the guard only after they have
  sent RESET_STREAM.
\<close>

fun send_closes :: "send_method \<Rightarrow> bool" where
  "send_closes (M_reset c) = True"
| "send_closes (M_aexit has_exception) = has_exception"
| "send_closes _ = False"

definition send_bystander :: "'x send_event list \<Rightarrow> nat \<Rightarrow> bool" where
  "send_bystander es i \<longleftrightarrow> (\<exists>m. Spawn i m \<in> set es \<and> \<not> send_closes m)"

fun send_overtaken ::
  "('mx, 'tok) tokio \<Rightarrow> (nat \<Rightarrow> bool) \<Rightarrow> 'x send_event \<Rightarrow> ('mx, 'tok) send_sys \<Rightarrow> bool" where
  "send_overtaken T B (Spawn i m) s = False"
| "send_overtaken T B (Step i r) s = (scancelled T s \<and> \<not> reset_sent s \<and> B i \<and>
     (case stask s i of S_Drop res \<Rightarrow> res \<noteq> Inl reset_locally | _ \<Rightarrow> False))"
| "send_overtaken T B (Abort i) s = (scancelled T s \<and> \<not> reset_sent s \<and> owes_reset (stask s i))"

definition send_timely_step ::
  "('mx, 'tok) tokio \<Rightarrow> 'x ext \<Rightarrow> (nat \<Rightarrow> bool) \<Rightarrow> 'x send_event \<Rightarrow> ('mx, 'tok) send_sys \<Rightarrow>
   ('mx, 'tok) send_sys option" where
  "send_timely_step T X B e s = (if send_overtaken T B e s then None else send_step T X e s)"

definition send_sender :: "send_pc \<Rightarrow> bool" where
  "send_sender pc = (case pc of
       S_Idle \<Rightarrow> True | R_Check c \<Rightarrow> True | R_Store c \<Rightarrow> True | R_Cancel c \<Rightarrow> True | R_TryLock c \<Rightarrow> True
     | R_Reset c \<Rightarrow> True | X_Store \<Rightarrow> True | X_Cancel \<Rightarrow> True | X_LockReset \<Rightarrow> True | X_Reset \<Rightarrow> True
     | S_Drop r \<Rightarrow> True | S_Done r \<Rightarrow> True | S_Aborted \<Rightarrow> True
     | _ \<Rightarrow> False)"

definition send_sender_inv :: "(nat \<Rightarrow> bool) \<Rightarrow> ('mx, 'tok) send_sys \<Rightarrow> bool" where
  "send_sender_inv B s \<longleftrightarrow> (\<forall>i. (\<not> B i \<longrightarrow> send_sender (stask s i)) \<and>
     (\<forall>res. stask s i = S_Drop res \<and> (\<not> B i \<or> res = Inl reset_locally) \<longrightarrow> reset_sent s))"

lemma write_fn_ret_not_local: "write_fn_ret X op r \<noteq> Some (Inl reset_locally)"
  using stream_error_not_local [of "''stream reset locally''" X, THEN not_sym]
  by (cases "(X, op, r)" rule: write_fn_ret.cases)
    (auto simp: reset_locally_def map_err_eq_Inl map_ok_eq_Inl dest: arg_cong [of _ _ args])

lemma send_pc_sender:
  assumes "send_pc_step T X r pc s = Some (pc', s', cs)"
  shows "(send_sender pc \<longrightarrow> send_sender pc') \<and>
    (\<forall>res. pc' = S_Drop res \<and> (send_sender pc \<or> res = Inl reset_locally) \<longrightarrow> (\<exists>c. cs = [Call_reset c]))"
  using assms write_fn_ret_not_local [of X]
  by (cases pc) (auto simp: send_step_defs send_sender_def split: send_splits)

lemma send_entry_sender: "send_closes m \<Longrightarrow> send_sender (send_entry m)" "\<exists>res. send_entry m = S_Drop res \<Longrightarrow> False"
  by (cases m; simp add: send_sender_def split: if_splits)+

lemma send_sender_step:
  assumes "send_sender_inv B s" "send_step T X e s = Some t" "\<forall>i m. e = Spawn i m \<and> \<not> B i \<longrightarrow> send_closes m"
  shows "send_sender_inv B t"
  using assms(2)
proof (cases rule: send_step_cases)
  case (Spawn i m)
  with assms(1,3) send_entry_sender [of m] show ?thesis
    by (auto simp: send_sender_inv_def reset_sent_def)
next
  case (Step i r pc o' cs)
  have mono: "reset_sent s \<Longrightarrow> reset_sent t" by (rule reset_sent_mono [OF assms(2)])
  from send_pc_sender [OF Step(2)] assms(1) Step(3) mono show ?thesis
    by (fastforce simp: send_sender_inv_def reset_sent_def)
next
  case (Abort i o')
  with assms(1) show ?thesis by (auto simp: send_sender_inv_def reset_sent_def send_sender_def)
qed

lemma send_timely_run:
  assumes "run (send_timely_step T X B) s es = Some t" "send_sender_inv B s"
    "\<forall>i m. Spawn i m \<in> set es \<and> \<not> B i \<longrightarrow> send_closes m"
  shows "reach (snd.timely T X) s t"
  using assms
proof (induction es arbitrary: s)
  case Nil
  then show ?case by (auto intro: reach.intros)
next
  case (Cons e es)
  then obtain u where u: "send_timely_step T X B e s = Some u" "run (send_timely_step T X B) u es = Some t"
    by (auto elim: run_Cons_SomeE)
  then have n: "\<not> send_overtaken T B e s" and st: "send_step T X e s = Some u"
    by (auto simp: send_timely_step_def split: if_splits)
  have "\<not> send_late T e s"
    using n Cons.prems(2) by (cases e) (auto simp: send_sender_inv_def split: send_pc.splits)
  with st have "snd.timely T X e s = Some u" by (simp add: snd.timely_def)
  moreover have "reach (snd.timely T X) u t"
    using send_sender_step [OF Cons.prems(2) st] Cons.prems(3) by (intro Cons.IH [OF u(2)]) auto
  ultimately show ?case by (rule reach_trans [OF reach_step [OF reach_refl]])
qed

lemma send_init_sender: "send_sender_inv B (send_init T p)"
  by (simp add: send_sender_inv_def send_init_def send_sender_def)

section \<open>Priorities\<close>

text \<open>The priority the QUIC stream has after the calls so far.\<close>

fun pushed :: "i32 \<Rightarrow> send_call list \<Rightarrow> i32" where
  "pushed p [] = p"
| "pushed p (Call_set_priority v # cs) = pushed v cs"
| "pushed p (_ # cs) = pushed p cs"

lemma pushed_append: "pushed p (cs @ ds) = pushed (pushed p cs) ds"
  by (induction p cs rule: pushed.induct) simp_all

definition syncing :: "send_pc \<Rightarrow> i32 option" where
  "syncing pc = (case pc of S_SyncStore op d \<Rightarrow> Some d | P_SyncStore d \<Rightarrow> Some d | _ \<Rightarrow> None)"

definition prio_inv :: "i32 \<Rightarrow> ('mx, 'tok) send_sys \<Rightarrow> bool" where
  "prio_inv p s \<longleftrightarrow>
     (\<forall>i d. syncing (stask s i) = Some d \<longrightarrow> pushed p (scalls s) = d) \<and>
     ((\<forall>i. syncing (stask s i) = None) \<longrightarrow> ss_synced_priority (sobj s) = pushed p (scalls s))"

lemma syncing_holds: "syncing pc = Some d \<Longrightarrow> send_holds pc"
  by (cases pc) (simp_all add: syncing_def send_holds_def)

lemma send_pc_prio:
  assumes "send_pc_step T X r pc s = Some (pc', s', cs)"
  shows "(\<exists>d. send_holds pc \<and> syncing pc = None \<and> syncing pc' = Some d \<and> (\<forall>q. pushed q cs = d)) \<or>
    (\<exists>d. syncing pc = Some d \<and> syncing pc' = None \<and> ss_synced_priority s' = d \<and> (\<forall>q. pushed q cs = q)) \<or>
    syncing pc = None \<and> syncing pc' = None \<and> ss_synced_priority s' = ss_synced_priority s
      \<and> (\<forall>q. pushed q cs = q)"
proof (cases pc)
  case (S_Run op)
  with assms show ?thesis by (cases op) (auto simp: send_step_defs syncing_def split: send_splits)
qed (use assms in \<open>auto simp: send_step_defs syncing_def send_holds_def split: send_splits\<close>)

lemma prio_inv_frame:
  assumes "prio_inv p s" "\<And>j. syncing (stask t j) = syncing (stask s j)"
    "pushed p (scalls t) = pushed p (scalls s)"
    "ss_synced_priority (sobj t) = ss_synced_priority (sobj s)"
  shows "prio_inv p t"
  using assms by (simp add: prio_inv_def)

lemma prio_inv_step:
  assumes guard: "snd.guard_inv T s" and inv: "prio_inv p s" and st: "send_step T X e s = Some t"
  shows "prio_inv p t"
  using st
proof (cases rule: send_step_cases)
  case (Spawn i m)
  have "syncing (send_entry m) = None" by (cases m) (simp_all add: syncing_def)
  then show ?thesis
    by (intro prio_inv_frame [OF inv]) (simp_all add: Spawn syncing_def [of S_Idle])
next
  case (Step i r pc o' cs)
  have other: "send_holds (stask s i) \<Longrightarrow> j \<noteq> i \<Longrightarrow> syncing (stask s j) = None" for j
    using guard syncing_holds [of "stask s j"]
    by (cases "syncing (stask s j)") (auto simp: snd.guard_inv_def)
  from send_pc_prio [OF Step(2)] show ?thesis
  proof (elim disjE exE conjE)
    fix d assume "send_holds (stask s i)" "syncing pc = Some d" "\<forall>q. pushed q cs = d"
    with other Step(3) show ?thesis by (auto simp: prio_inv_def pushed_append)
  next
    fix d assume a: "syncing (stask s i) = Some d" "syncing pc = None"
      "ss_synced_priority o' = d" "\<forall>q. pushed q cs = q"
    with inv have "pushed p (scalls s) = d" by (auto simp: prio_inv_def)
    moreover have "syncing (stask t j) = None" for j
      using other [OF syncing_holds [OF a(1)], of j] a(2) by (simp add: Step(3))
    ultimately show ?thesis using a(3,4) by (simp add: prio_inv_def pushed_append Step(3))
  next
    assume "syncing (stask s i) = None" "syncing pc = None"
      "ss_synced_priority o' = ss_synced_priority (sobj s)" "\<forall>q. pushed q cs = q"
    then show ?thesis
      by (intro prio_inv_frame [OF inv]) (simp_all add: Step(3) pushed_append)
  qed
next
  case (Abort i o')
  have "syncing (stask s i) = None" "ss_synced_priority o' = ss_synced_priority (sobj s)"
    using Abort(2) by (cases "stask s i"; auto simp: send_abort_def syncing_def split: send_splits)+
  then show ?thesis
    by (intro prio_inv_frame [OF inv]) (simp_all add: Abort(3) syncing_def [of S_Aborted])
qed

lemma prio_inv_reach:
  assumes ok: "tokio_ok T" and r: "reach (send_step T X) (send_init T p) t"
  shows "prio_inv (ss_priority (send_new T p)) t"
  using r
proof (induction "send_init T p :: ('a, 'b) send_sys" t rule: reach.induct)
  case reach_refl
  then show ?case by (simp add: prio_inv_def send_init_def send_new_def Let_def syncing_def)
next
  case (reach_step t e u)
  have "snd.guard_inv T t" by (rule snd.guard_inv_reach [OF ok _ reach_step(1)]) blast
  then show ?case by (rule prio_inv_step [OF _ reach_step(2,3)])
qed

section \<open>After a reset every operation can finish\<close>

text \<open>
  Steps a task needs at most to finish once the token is cancelled, none of which waits for the
  peer.
\<close>

definition send_rank :: "send_pc \<Rightarrow> nat" where
  "send_rank pc = (case pc of
       S_Idle \<Rightarrow> 0 | S_Done r \<Rightarrow> 0 | S_Aborted \<Rightarrow> 0
     | S_Drop r \<Rightarrow> 1 | S_CancelReset c \<Rightarrow> 2 | S_CancelHeld \<Rightarrow> 3 | S_CancelLock \<Rightarrow> 4
     | S_Select op b \<Rightarrow> 5 | S_Run op \<Rightarrow> 6 | S_SyncStore op d \<Rightarrow> 7 | S_Loaded op d \<Rightarrow> 8
     | S_Load op \<Rightarrow> 9 | S_Poll op b \<Rightarrow> 10
     | R_Reset c \<Rightarrow> 2 | R_TryLock c \<Rightarrow> 3 | R_Cancel c \<Rightarrow> 4 | R_Store c \<Rightarrow> 5 | R_Check c \<Rightarrow> 6
     | X_Reset \<Rightarrow> 2 | X_LockReset \<Rightarrow> 3 | X_Cancel \<Rightarrow> 4 | X_Store \<Rightarrow> 5
     | X_Finish \<Rightarrow> 2 | X_LockFinish \<Rightarrow> 3
     | P_SyncStore v \<Rightarrow> 2 | P_Set v \<Rightarrow> 3 | P_TryLock v \<Rightarrow> 4 | P_Store v \<Rightarrow> 5)"

definition send_work :: "('mx, 'tok) send_sys \<Rightarrow> nat" where
  "send_work s = pool_rank (\<lambda>i. send_rank (stask s i))"

lemma send_rank_0: "send_rank pc = 0 \<longleftrightarrow> send_quiet pc"
  by (cases pc) (simp_all add: send_rank_def send_quiet_def)

text \<open>The only step of a cancelled system that makes no progress is a failed lock attempt.\<close>

lemma send_pc_rank:
  assumes "send_pc_step T X r pc s = Some (pc', s', cs)" "is_cancelled T (ss_cancel s)"
  shows "send_rank pc' < send_rank pc \<or>
    locked T (ss_inner s) \<and> \<not> send_holds pc \<and> pc' = pc \<and> s' = s \<and> cs = []"
  using assms
  by (cases pc) (auto simp: send_step_defs send_rank_def send_holds_def locked_def split: send_splits)

text \<open>A task that holds the guard, or finds the lock free, can always step on its own.\<close>

definition sync_answer :: "send_pc \<Rightarrow> 'x send_resp option" where
  "sync_answer pc = (if pc = S_Run Op_finish then Some (Resp_finish (Inr ())) else None)"

lemma send_pc_enabled:
  assumes "\<not> send_quiet pc" "is_cancelled T (ss_cancel s)" "send_holds pc \<or> \<not> locked T (ss_inner s)"
  shows "\<exists>pc' s' cs. send_pc_step T X (sync_answer pc) pc s = Some (pc', s', cs) \<and>
    send_rank pc' < send_rank pc"
proof (cases pc)
  case (S_Run op)
  then show ?thesis by (cases op) (auto simp: send_step_defs send_rank_def sync_answer_def)
next
  case (S_Poll op b)
  with assms show ?thesis
    by (cases b) (auto simp: send_step_defs send_rank_def sync_answer_def send_holds_def locked_def)
qed (use assms in \<open>auto simp: send_step_defs send_rank_def sync_answer_def send_holds_def
       send_quiet_def locked_def split: send_splits\<close>)

definition peerless :: "'x send_event \<Rightarrow> bool" where
  "peerless e \<longleftrightarrow> (\<exists>i. e = Step i None \<or> e = Step i (Some (Resp_finish (Inr ()))))"

lemma send_finite_step:
  assumes "send_step T X e s = Some t" "finite {i. stask s i \<noteq> S_Idle}"
  shows "finite {i. stask t i \<noteq> S_Idle}"
proof -
  from assms(1) have "\<exists>i. {j. stask t j \<noteq> S_Idle} \<subseteq> insert i {j. stask s j \<noteq> S_Idle}"
    by (cases rule: send_step_cases) (auto split: if_splits)
  with assms(2) show ?thesis by (auto intro: finite_subset)
qed

lemma send_finite_rank:
  "finite {i. stask s i \<noteq> S_Idle} \<Longrightarrow> finite {i. send_rank (stask s i) \<noteq> 0}"
  by (rule finite_subset) (auto simp: send_rank_def)

lemma send_work_step:
  assumes "finite {i. stask s i \<noteq> S_Idle}" "stask t = (stask s)(i := pc)"
    "send_rank pc < send_rank (stask s i)"
  shows "send_work t < send_work s"
proof -
  have "(\<lambda>j. send_rank (stask t j)) = (\<lambda>j. send_rank (stask s j))(i := send_rank pc)"
    using assms(2) by auto
  then show ?thesis unfolding send_work_def
    using pool_rank_update_less [OF send_finite_rank [OF assms(1)]] assms(3) by simp
qed

interpretation snd: progress_protocol "tokio_ok T" "send_step T X" "\<lambda>s. \<exists>p. s = send_init T p"
  "\<lambda>s i. send_holds (stask s i)" "slocked T" "scancelled T" "\<lambda>s i. send_doomed (stask s i)"
  "\<lambda>s i. send_quiet (stask s i)" send_work "\<lambda>s. finite {i. stask s i \<noteq> S_Idle}" peerless
  for T X
proof
  show "finite {i. stask s i \<noteq> S_Idle}" if "\<exists>p. s = send_init T p" for s
    using that by (auto simp: send_init_def)
  show "finite {i. stask t i \<noteq> S_Idle}"
    if "send_step T X e s = Some t" "finite {i. stask s i \<noteq> S_Idle}" for e s t
    using that by (rule send_finite_step)
  show "\<not> send_quiet (stask s i)" if "send_holds (stask s i)" for s i
    using that send_quiet_owes by (auto simp: owes_reset_def)
next
  fix s i
  assume fin: "finite {i. stask s i \<noteq> S_Idle}" and c: "scancelled T s"
    and b: "\<not> send_quiet (stask s i)" "send_holds (stask s i) \<or> \<not> slocked T s"
  from send_pc_enabled [OF b(1) c b(2), of X] obtain pc o' cs where
    st: "send_pc_step T X (sync_answer (stask s i)) (stask s i) (sobj s) = Some (pc, o', cs)"
    and rk: "send_rank pc < send_rank (stask s i)" by blast
  let ?t = "\<lparr>sobj = o', stask = (stask s)(i := pc), scalls = scalls s @ cs\<rparr>"
  have "send_step T X (Step i (sync_answer (stask s i))) s = Some ?t" using st by simp
  moreover have "peerless (Step i (sync_answer (stask s i)))"
    by (simp add: peerless_def sync_answer_def)
  ultimately show "\<exists>e t. peerless e \<and> send_step T X e s = Some t \<and> send_work t < send_work s"
    using send_work_step [OF fin _ rk, of ?t] by fastforce
qed

text \<open>No task has more than its rank of steps left, except attempts to take a lock another task has.\<close>

lemma send_abort_rank:
  "send_abort T pc s = Some s' \<Longrightarrow> send_rank S_Aborted < send_rank pc"
  by (cases pc) (auto simp: send_abort_def send_rank_def split: send_splits)

lemma send_rank_le: "send_rank pc \<le> 10"
  by (cases pc) (simp_all add: send_rank_def)

lemma send_work_le: "send_work s \<le> 10 * card {i. \<not> send_quiet (stask s i)}"
  using pool_rank_le [of "\<lambda>i. send_rank (stask s i)" 10] by (simp add: send_work_def send_rank_le send_rank_0)

definition send_starts :: "'x send_event \<Rightarrow> bool" where
  "send_starts e \<longleftrightarrow> (\<exists>i m. e = Spawn i m)"

interpretation snd: bounded_protocol "tokio_ok T" "send_step T X" "\<lambda>s. \<exists>p. s = send_init T p"
  "\<lambda>s i. send_holds (stask s i)" "slocked T" "scancelled T" "\<lambda>s i. send_doomed (stask s i)"
  "\<lambda>s i. send_quiet (stask s i)" send_work "\<lambda>s. finite {i. stask s i \<noteq> S_Idle}" peerless send_starts
  for T X
proof
  fix s e t
  assume fin: "finite {i. stask s i \<noteq> S_Idle}" and c: "scancelled T s" and n: "\<not> send_starts e"
    and st: "send_step T X e s = Some t"
  from st show "send_work t < send_work s \<or> t = s"
  proof (cases rule: send_step_cases)
    case (Spawn i m)
    with n show ?thesis by (simp add: send_starts_def)
  next
    case (Step i r pc o' cs)
    from send_pc_rank [OF Step(2) c] show ?thesis
      using send_work_step [OF fin, of t i pc] Step(3) by auto
  next
    case (Abort i o')
    then show ?thesis
      using send_work_step [OF fin, of t i S_Aborted] send_abort_rank [OF Abort(2)] by simp
  qed
qed

end
