(* ===== verification/Seq_Refinement.thy ===== *)
theory Seq_Refinement
  imports Async_Core
begin

text \<open>
  Refinement of a system of tasks to an object with atomic methods: methods that run one after the
  other behave like single steps of a specification. The specification is a relation
  \<open>spec m a r a' cs\<close>: in state \<open>a\<close>, method \<open>m\<close> may return \<open>r\<close>, leave \<open>a'\<close> and make the calls \<open>cs\<close>. The
  answers of the peer are what makes it a relation.
\<close>

section \<open>Sequences of methods\<close>

text \<open>
  Each method is started in its own task, and only that task runs until the method has a result.
\<close>

inductive sequential ::
  "('e \<Rightarrow> 's \<Rightarrow> 's option) \<Rightarrow> (nat \<Rightarrow> 'm \<Rightarrow> 'e) \<Rightarrow> (nat \<Rightarrow> 'e \<Rightarrow> bool) \<Rightarrow> ('s \<Rightarrow> nat \<Rightarrow> 'r option) \<Rightarrow>
   's \<Rightarrow> ('m \<times> 'r) list \<Rightarrow> 's \<Rightarrow> bool"
  for step start mine result where
  seq_Nil: "sequential step start mine result s [] s"
| seq_Cons: "run step s (start i m # es) = Some t \<Longrightarrow> \<forall>e \<in> set es. mine i e \<Longrightarrow> result t i = Some r \<Longrightarrow>
    sequential step start mine result t k u \<Longrightarrow> sequential step start mine result s ((m, r) # k) u"

inductive spec_trace ::
  "('m \<Rightarrow> 'a \<Rightarrow> 'r \<Rightarrow> 'a \<Rightarrow> 'c list \<Rightarrow> bool) \<Rightarrow> 'a \<Rightarrow> ('m \<times> 'r) list \<Rightarrow> 'a \<Rightarrow> 'c list \<Rightarrow> bool"
  for spec where
  trace_Nil: "spec_trace spec a [] a []"
| trace_Cons: "spec m a r b cs \<Longrightarrow> spec_trace spec b k c ds \<Longrightarrow> spec_trace spec a ((m, r) # k) c (cs @ ds)"

inductive_simps spec_trace_Nil [simp]: "spec_trace spec a [] b cs"
inductive_simps spec_trace_Cons: "spec_trace spec a ((m, r) # k) b cs"

section \<open>The refinement as an interface\<close>

text \<open>
  \<open>solo m a c s i\<close>: task \<open>i\<close> is running method \<open>m\<close> alone since the abstract state \<open>a\<close> with calls \<open>c\<close>.
\<close>

locale solo_refinement =
  fixes env_ok :: bool
    and step :: "'e \<Rightarrow> 's \<Rightarrow> 's option"
    and start :: "nat \<Rightarrow> 'm \<Rightarrow> 'e"
    and mine :: "nat \<Rightarrow> 'e \<Rightarrow> bool"
    and result :: "'s \<Rightarrow> nat \<Rightarrow> 'r option"
    and rest :: "'s \<Rightarrow> bool"
    and abs :: "'s \<Rightarrow> 'a"
    and calls :: "'s \<Rightarrow> 'c list"
    and spec :: "'m \<Rightarrow> 'a \<Rightarrow> 'r \<Rightarrow> 'a \<Rightarrow> 'c list \<Rightarrow> bool"
    and solo :: "'m \<Rightarrow> 'a \<Rightarrow> 'c list \<Rightarrow> 's \<Rightarrow> nat \<Rightarrow> bool"
  assumes solo_start: "env_ok \<Longrightarrow> rest s \<Longrightarrow> step (start i m) s = Some t \<Longrightarrow> solo m (abs s) (calls s) t i"
    and solo_step: "env_ok \<Longrightarrow> solo m a c s i \<Longrightarrow> mine i e \<Longrightarrow> step e s = Some t \<Longrightarrow> solo m a c t i"
    and solo_done: "solo m a c s i \<Longrightarrow> result s i = Some r \<Longrightarrow>
      rest s \<and> (\<exists>cs. calls s = c @ cs \<and> spec m a r (abs s) cs)"
    and complete: "env_ok \<Longrightarrow> rest s \<Longrightarrow> spec m (abs s) r a' cs \<Longrightarrow>
      \<exists>i es t. run step s (start i m # es) = Some t \<and> (\<forall>e \<in> set es. mine i e) \<and>
        result t i = Some r \<and> rest t \<and> abs t = a' \<and> calls t = calls s @ cs"
begin

lemma solo_run:
  "env_ok \<Longrightarrow> solo m a c s i \<Longrightarrow> run step s es = Some t \<Longrightarrow> \<forall>e \<in> set es. mine i e \<Longrightarrow> solo m a c t i"
  by (induction es arbitrary: s) (auto elim!: run_Cons_SomeE dest: solo_step)

lemma method_sound:
  assumes "env_ok" "rest s" "run step s (start i m # es) = Some t" "\<forall>e \<in> set es. mine i e"
    "result t i = Some r"
  shows "rest t \<and> (\<exists>cs. calls t = calls s @ cs \<and> spec m (abs s) r (abs t) cs)"
proof -
  from assms(3) obtain u where u: "step (start i m) s = Some u" "run step u es = Some t"
    by (rule run_Cons_SomeE)
  from solo_run [OF assms(1) solo_start [OF assms(1,2) u(1)] u(2) assms(4)]
  show ?thesis using assms(5) by (rule solo_done)
qed

theorem sequential_sound:
  assumes "sequential step start mine result s k t" "env_ok" "rest s"
  shows "rest t \<and> (\<exists>cs. calls t = calls s @ cs \<and> spec_trace spec (abs s) k (abs t) cs)"
  using assms
proof (induction rule: sequential.induct)
  case (seq_Cons s i m es t r k u)
  from method_sound [OF seq_Cons.prems(1,2) seq_Cons.hyps(1-3)] obtain cs where
    "rest t" "calls t = calls s @ cs" "spec m (abs s) r (abs t) cs" by blast
  moreover from seq_Cons.IH [OF seq_Cons.prems(1) \<open>rest t\<close>] obtain ds where
    "rest u" "calls u = calls t @ ds" "spec_trace spec (abs t) k (abs u) ds" by blast
  ultimately show ?case by (auto intro: trace_Cons)
qed simp

theorem sequential_complete:
  assumes "spec_trace spec a k a' cs" "env_ok" "rest s" "abs s = a"
  shows "\<exists>t. sequential step start mine result s k t \<and> rest t \<and> abs t = a' \<and> calls t = calls s @ cs"
  using assms
proof (induction arbitrary: s rule: spec_trace.induct)
  case (trace_Nil a)
  then show ?case by (auto intro: sequential.seq_Nil)
next
  case (trace_Cons m a r b cs k c ds)
  from trace_Cons.hyps(1) trace_Cons.prems obtain i es t where
    t: "run step s (start i m # es) = Some t" "\<forall>e \<in> set es. mine i e" "result t i = Some r"
      "rest t" "abs t = b" "calls t = calls s @ cs"
    using complete [OF trace_Cons.prems(1,2), of m r b cs] by blast
  from trace_Cons.IH [OF trace_Cons.prems(1) t(4,5)] obtain u where
    "sequential step start mine result t k u" "rest u" "abs u = c" "calls u = calls t @ ds" by blast
  with t show ?case by (auto intro: sequential.seq_Cons)
qed

end

end
