(* ===== verification/Send_Refinement.thy ===== *)
theory Send_Refinement
  imports Send_Safety Seq_Refinement
begin

text \<open>
  The send stream as an object with atomic methods. The abstract stream is open or closed, with
  the code it was closed with, and has a priority of which the QUIC stream may not know yet;
  mutex, token, program counters and tasks are gone.
\<close>

section \<open>The specification\<close>

record send_abs =
  sa_closed :: bool
  sa_code :: u32
  sa_priority :: i32
  sa_synced :: i32

fun send_method_op :: "send_method \<Rightarrow> send_op option" where
  "send_method_op (M_write data) = Some (Op_write data)"
| "send_method_op (M_write_some data) = Some (Op_write_some data)"
| "send_method_op M_finish = Some Op_finish"
| "send_method_op M_wait_closed = Some Op_wait_closed"
| "send_method_op _ = None"

definition sync_calls :: "send_abs \<Rightarrow> send_call list" where
  "sync_calls a = (if sa_priority a \<noteq> sa_synced a then [Call_set_priority (sa_priority a)] else [])"

definition send_op_spec ::
  "'x ext \<Rightarrow> send_op \<Rightarrow> send_abs \<Rightarrow> py_err + py_val \<Rightarrow> send_abs \<Rightarrow> send_call list \<Rightarrow> bool" where
  "send_op_spec X op a r a' cs \<longleftrightarrow>
     (if sa_closed a
      then r = Inl (new_err StreamClosedLocally ''stream reset locally'') \<and> a' = a \<and>
        cs = [Call_reset (sa_code a)]
      else (\<exists>ans. write_fn_ret X op ans = Some r) \<and> a' = a\<lparr>sa_synced := sa_priority a\<rparr> \<and>
        cs = sync_calls a @ [write_fn op])"

fun send_spec ::
  "'x ext \<Rightarrow> send_method \<Rightarrow> send_abs \<Rightarrow> py_err + py_val \<Rightarrow> send_abs \<Rightarrow> send_call list \<Rightarrow> bool" where
  "send_spec X (M_reset code) a r a' cs =
     (if sa_closed a
      then r = Inl (new_err StreamClosedLocally ''stream already closed'') \<and> a' = a \<and> cs = []
      else r = Inr PyNone \<and> a' = a\<lparr>sa_closed := True, sa_code := code\<rparr> \<and> cs = [Call_reset code])"
| "send_spec X (M_aexit has_exception) a r a' cs =
     (r = Inr PyNone \<and>
      (if has_exception then a' = a\<lparr>sa_closed := True, sa_code := 0\<rparr> \<and> cs = [Call_reset 0]
       else a' = a \<and> cs = [Call_finish]))"
| "send_spec X (M_set_priority v) a r a' cs =
     (r = Inr PyNone \<and> a' = a\<lparr>sa_priority := v, sa_synced := v\<rparr> \<and> cs = [Call_set_priority v])"
| "send_spec X (M_write data) a r a' cs = send_op_spec X (Op_write data) a r a' cs"
| "send_spec X (M_write_some data) a r a' cs = send_op_spec X (Op_write_some data) a r a' cs"
| "send_spec X M_finish a r a' cs = send_op_spec X Op_finish a r a' cs"
| "send_spec X M_wait_closed a r a' cs = send_op_spec X Op_wait_closed a r a' cs"

section \<open>The abstraction\<close>

definition obj_abs :: "('mx, 'tok) tokio \<Rightarrow> ('mx, 'tok) send_stream \<Rightarrow> send_abs" where
  "obj_abs T s = \<lparr>sa_closed = is_cancelled T (ss_cancel s), sa_code = ss_reset_code s,
     sa_priority = ss_priority s, sa_synced = ss_synced_priority s\<rparr>"

definition send_abs_of :: "('mx, 'tok) tokio \<Rightarrow> ('mx, 'tok) send_sys \<Rightarrow> send_abs" where
  "send_abs_of T s = obj_abs T (sobj s)"

definition send_result :: "('mx, 'tok) send_sys \<Rightarrow> nat \<Rightarrow> (py_err + py_val) option" where
  "send_result s i = (case stask s i of S_Done r \<Rightarrow> Some r | _ \<Rightarrow> None)"

definition send_mine :: "nat \<Rightarrow> 'x send_event \<Rightarrow> bool" where
  "send_mine i e \<longleftrightarrow> (\<exists>r. e = Step i r)"

definition send_rest :: "('mx, 'tok) tokio \<Rightarrow> ('mx, 'tok) send_sys \<Rightarrow> bool" where
  "send_rest T s \<longleftrightarrow> \<not> slocked T s \<and> finite {i. stask s i \<noteq> S_Idle}"

section \<open>A task alone\<close>

text \<open>How far method \<open>m\<close>, started in \<open>a\<close>, has got: the state now and the calls made.\<close>

definition send_progress ::
  "'x ext \<Rightarrow> send_method \<Rightarrow> send_abs \<Rightarrow> send_pc \<Rightarrow> send_abs \<Rightarrow> send_call list \<Rightarrow> bool" where
  "send_progress X m a pc b cs = (case pc of
       S_Select op body \<Rightarrow> send_method_op m = Some op \<and>
         (case body of
            B_Lock \<Rightarrow> b = a \<and> cs = []
          | B_Call \<Rightarrow> \<not> sa_closed a \<and> b = a\<lparr>sa_synced := sa_priority a\<rparr> \<and> cs = sync_calls a @ [write_fn op])
     | S_Poll op body \<Rightarrow> send_method_op m = Some op \<and> \<not> sa_closed a \<and>
         (case body of
            B_Lock \<Rightarrow> b = a \<and> cs = []
          | B_Call \<Rightarrow> b = a\<lparr>sa_synced := sa_priority a\<rparr> \<and> cs = sync_calls a @ [write_fn op])
     | S_Load op \<Rightarrow> send_method_op m = Some op \<and> \<not> sa_closed a \<and> b = a \<and> cs = []
     | S_Loaded op d \<Rightarrow> send_method_op m = Some op \<and> \<not> sa_closed a \<and> b = a \<and> cs = [] \<and> d = sa_priority a
     | S_SyncStore op d \<Rightarrow> send_method_op m = Some op \<and> \<not> sa_closed a \<and> b = a \<and> d = sa_priority a \<and>
         cs = sync_calls a \<and> sa_priority a \<noteq> sa_synced a
     | S_Run op \<Rightarrow> send_method_op m = Some op \<and> \<not> sa_closed a \<and> b = a\<lparr>sa_synced := sa_priority a\<rparr> \<and>
         cs = sync_calls a
     | S_CancelLock \<Rightarrow> (\<exists>op. send_method_op m = Some op) \<and> sa_closed a \<and> b = a \<and> cs = []
     | S_CancelHeld \<Rightarrow> (\<exists>op. send_method_op m = Some op) \<and> sa_closed a \<and> b = a \<and> cs = []
     | S_CancelReset c \<Rightarrow> (\<exists>op. send_method_op m = Some op) \<and> sa_closed a \<and> b = a \<and> cs = [] \<and> c = sa_code a
     | S_Drop r \<Rightarrow> send_spec X m a r b cs
     | S_Done r \<Rightarrow> send_spec X m a r b cs
     | R_Check c \<Rightarrow> m = M_reset c \<and> b = a \<and> cs = []
     | R_Store c \<Rightarrow> m = M_reset c \<and> \<not> sa_closed a \<and> b = a \<and> cs = []
     | R_Cancel c \<Rightarrow> m = M_reset c \<and> \<not> sa_closed a \<and> b = a\<lparr>sa_code := c\<rparr> \<and> cs = []
     | R_TryLock c \<Rightarrow> m = M_reset c \<and> \<not> sa_closed a \<and> b = a\<lparr>sa_closed := True, sa_code := c\<rparr> \<and> cs = []
     | R_Reset c \<Rightarrow> m = M_reset c \<and> \<not> sa_closed a \<and> b = a\<lparr>sa_closed := True, sa_code := c\<rparr> \<and> cs = []
     | X_Store \<Rightarrow> m = M_aexit True \<and> b = a \<and> cs = []
     | X_Cancel \<Rightarrow> m = M_aexit True \<and> b = a\<lparr>sa_code := 0\<rparr> \<and> cs = []
     | X_LockReset \<Rightarrow> m = M_aexit True \<and> b = a\<lparr>sa_closed := True, sa_code := 0\<rparr> \<and> cs = []
     | X_Reset \<Rightarrow> m = M_aexit True \<and> b = a\<lparr>sa_closed := True, sa_code := 0\<rparr> \<and> cs = []
     | X_LockFinish \<Rightarrow> m = M_aexit False \<and> b = a \<and> cs = []
     | X_Finish \<Rightarrow> m = M_aexit False \<and> b = a \<and> cs = []
     | P_Store v \<Rightarrow> m = M_set_priority v \<and> b = a \<and> cs = []
     | P_TryLock v \<Rightarrow> m = M_set_priority v \<and> b = a\<lparr>sa_priority := v\<rparr> \<and> cs = []
     | P_Set v \<Rightarrow> m = M_set_priority v \<and> b = a\<lparr>sa_priority := v\<rparr> \<and> cs = []
     | P_SyncStore v \<Rightarrow> m = M_set_priority v \<and> b = a\<lparr>sa_priority := v\<rparr> \<and> cs = [Call_set_priority v]
     | _ \<Rightarrow> False)"

lemma send_spec_op: "send_method_op m = Some op \<Longrightarrow> send_spec X m a r a' cs = send_op_spec X op a r a' cs"
  by (cases m) auto

lemma send_progress_entry: "send_progress X m a (send_entry m) a []"
  by (cases m) (simp_all add: send_progress_def)

lemma obj_abs_update [simp]:
  "obj_abs T (s\<lparr>ss_inner := m\<rparr>) = obj_abs T s"
  "obj_abs T (s\<lparr>ss_reset_code := c\<rparr>) = (obj_abs T s)\<lparr>sa_code := c\<rparr>"
  "obj_abs T (s\<lparr>ss_priority := v\<rparr>) = (obj_abs T s)\<lparr>sa_priority := v\<rparr>"
  "obj_abs T (s\<lparr>ss_synced_priority := v\<rparr>) = (obj_abs T s)\<lparr>sa_synced := v\<rparr>"
  by (simp_all add: obj_abs_def)

lemma obj_abs_cancel [simp]:
  "tokio_ok T \<Longrightarrow> obj_abs T (s\<lparr>ss_cancel := token_cancel T t\<rparr>) = (obj_abs T s)\<lparr>sa_closed := True\<rparr>"
  by (simp add: obj_abs_def token_cancelled)

lemma obj_abs_sel [simp]:
  "sa_closed (obj_abs T s) = is_cancelled T (ss_cancel s)" "sa_code (obj_abs T s) = ss_reset_code s"
  "sa_priority (obj_abs T s) = ss_priority s" "sa_synced (obj_abs T s) = ss_synced_priority s"
  "(obj_abs T s)\<lparr>sa_synced := ss_synced_priority s\<rparr> = obj_abs T s"
  by (simp_all add: obj_abs_def)

lemma send_progress_step:
  assumes ok: "tokio_ok T" and pr: "send_progress X m a pc (obj_abs T s) cs"
    and lk: "locked T (ss_inner s) \<longleftrightarrow> send_holds pc"
    and st: "send_pc_step T X r pc s = Some (pc', s', ds)"
  shows "send_progress X m a pc' (obj_abs T s') (cs @ ds)"
proof -
  have free: "try_lock T (ss_inner s) \<noteq> None" if "\<not> send_holds pc" using lk that by (simp add: locked_def)
  have live: "\<not> is_cancelled T (ss_cancel s)" if "pc = S_Select op B_Call" for op
    using pr that obj_abs_sel(1) [of T s] by (auto simp: send_progress_def simp del: obj_abs_sel)
  note defs = send_step_defs send_progress_def send_holds_def
  show ?thesis
    using pr st free live
    by (cases pc) (auto simp: defs send_spec_op send_op_spec_def sync_calls_def
        reset_locally_def already_closed_def ok split: send_splits)
qed

section \<open>The refinement\<close>

definition send_solo ::
  "('mx, 'tok) tokio \<Rightarrow> 'x ext \<Rightarrow> send_method \<Rightarrow> send_abs \<Rightarrow> send_call list \<Rightarrow>
   ('mx, 'tok) send_sys \<Rightarrow> nat \<Rightarrow> bool" where
  "send_solo T X m a c s i \<longleftrightarrow> finite {i. stask s i \<noteq> S_Idle} \<and>
     (slocked T s \<longleftrightarrow> send_holds (stask s i)) \<and>
     (\<exists>cs. scalls s = c @ cs \<and> send_progress X m a (stask s i) (send_abs_of T s) cs)"

lemma send_solo_step:
  assumes ok: "tokio_ok T" and so: "send_solo T X m a c s i" and e: "send_mine i e"
    and st: "send_step T X e s = Some t"
  shows "send_solo T X m a c t i"
proof -
  from e st obtain r pc o' ds where
    st': "send_pc_step T X r (stask s i) (sobj s) = Some (pc, o', ds)"
    and t: "t = \<lparr>sobj = o', stask = (stask s)(i := pc), scalls = scalls s @ ds\<rparr>"
    by (auto simp: send_mine_def)
  from so obtain cs where cs: "scalls s = c @ cs" "slocked T s \<longleftrightarrow> send_holds (stask s i)"
    "send_progress X m a (stask s i) (obj_abs T (sobj s)) cs" "finite {i. stask s i \<noteq> S_Idle}"
    by (auto simp: send_solo_def send_abs_of_def)
  from send_progress_step [OF ok cs(3,2) st'] send_pc_guard [OF ok st'] cs
    send_finite_step [OF st cs(4)] show ?thesis
    unfolding send_solo_def t by (auto simp: send_abs_of_def)
qed

text \<open>Every behaviour the specification allows is a run of the task alone.\<close>

lemma send_op_complete:
  assumes ok: "tokio_ok T" and at: "stask s i = S_Select op B_Lock" and free: "\<not> slocked T s"
    and sp: "send_op_spec X op (send_abs_of T s) r a' cs"
  shows "\<exists>as t. run (send_step T X) s (map (Step i) as) = Some t \<and>
    stask t = (stask s)(i := S_Done r) \<and> \<not> slocked T t \<and> send_abs_of T t = a' \<and> scalls t = scalls s @ cs"
proof -
  from free obtain m where m: "try_lock T (ss_inner (sobj s)) = Some m"
    by (rule not_locked_obtain)
  have u: "\<not> locked T (unlock T m)"
    using try_lock_locked [OF ok m] by (rule unlock_free [OF ok])
  show ?thesis
  proof (cases "scancelled T s")
    case True
    let ?as = "[None, None, None, None, None]"
    from True sp show ?thesis
      by (intro exI [of _ ?as])
        (simp add: at m u send_step_defs send_op_spec_def send_abs_of_def reset_locally_def)
  next
    case False
    with sp obtain ans where ans: "write_fn_ret X op ans = Some r" by (auto simp: send_op_spec_def send_abs_of_def)
    let ?as = "[None, None, None, None] @
      (if ss_priority (sobj s) \<noteq> ss_synced_priority (sobj s) then [None] else []) @ [Some ans, None]"
    from False sp ans show ?thesis
      by (intro exI [of _ ?as])
        (auto simp: at m u send_step_defs send_op_spec_def send_abs_of_def sync_calls_def)
  qed
qed

lemma send_method_complete:
  assumes ok: "tokio_ok T" and at: "stask s i = send_entry m" and free: "\<not> slocked T s"
    and sp: "send_spec X m (send_abs_of T s) r a' cs"
  shows "\<exists>as t. run (send_step T X) s (map (Step i) as) = Some t \<and>
    stask t = (stask s)(i := S_Done r) \<and> \<not> slocked T t \<and> send_abs_of T t = a' \<and> scalls t = scalls s @ cs"
proof (cases "send_method_op m")
  case (Some op)
  then have "send_entry m = S_Select op B_Lock" by (cases m) auto
  with at have "stask s i = S_Select op B_Lock" by simp
  then show ?thesis using free sp [unfolded send_spec_op [OF Some]] by (rule send_op_complete [OF ok])
next
  case None
  from free obtain g where g: "try_lock T (ss_inner (sobj s)) = Some g"
    by (rule not_locked_obtain)
  have u: "\<not> locked T (unlock T g)"
    using try_lock_locked [OF ok g] by (rule unlock_free [OF ok])
  note simps = at g u free send_step_defs send_abs_of_def already_closed_def token_cancelled [OF ok]
  show ?thesis
  proof (cases m)
    case (M_reset c)
    with sp show ?thesis
      by (intro exI [of _ "if scancelled T s then [None] else [None, None, None, None, None, None]"])
        (auto simp: simps ok)
  next
    case (M_aexit b)
    with sp show ?thesis
      by (intro exI [of _ "if b then [None, None, None, None, None] else [None, None, None]"])
        (auto simp: simps ok)
  next
    case (M_set_priority v)
    with sp show ?thesis
      by (intro exI [of _ "[None, None, None, None, None]"]) (auto simp: simps)
  qed (use None in auto)
qed

interpretation snd: solo_refinement "tokio_ok T" "send_step T X" Spawn send_mine send_result
  "send_rest T" "send_abs_of T" scalls "send_spec X" "send_solo T X" for T X
proof
  fix s i m t
  assume ok: "tokio_ok T" and r: "send_rest T s" and st: "send_step T X (Spawn i m) s = Some t"
  then have t: "t = s\<lparr>stask := (stask s)(i := send_entry m)\<rparr>" by (simp split: if_splits)
  from r send_entry_no_guard [of m] send_progress_entry [of X m "send_abs_of T s"]
    send_finite_step [OF st]
  show "send_solo T X m (send_abs_of T s) (scalls s) t i"
    by (simp add: send_solo_def send_rest_def t send_abs_of_def)
next
  fix m a c s i r
  assume "send_solo T X m a c s i" "send_result s i = Some r"
  then show "send_rest T s \<and> (\<exists>cs. scalls s = c @ cs \<and> send_spec X m a r (send_abs_of T s) cs)"
    by (auto simp: send_solo_def send_rest_def send_result_def send_progress_def send_holds_def
        split: send_pc.splits)
next
  fix s m r a' cs
  assume ok: "tokio_ok T" and rest: "send_rest T s" and sp: "send_spec X m (send_abs_of T s) r a' cs"
  from rest have fin: "finite {i. stask s i \<noteq> S_Idle}" by (simp add: send_rest_def)
  then obtain i where i: "stask s i = S_Idle" using ex_new_if_finite [of "{i. stask s i \<noteq> S_Idle}"] by auto
  let ?s = "s\<lparr>stask := (stask s)(i := send_entry m)\<rparr>"
  have "send_spec X m (send_abs_of T ?s) r a' cs" using sp by (simp add: send_abs_of_def)
  with send_method_complete [OF ok _ _ this, of i] rest obtain as t where
    t: "run (send_step T X) ?s (map (Step i) as) = Some t" "stask t = (stask ?s)(i := S_Done r)"
      "\<not> slocked T t" "send_abs_of T t = a'" "scalls t = scalls s @ cs"
    by (auto simp: send_rest_def)
  have "finite {j. stask t j \<noteq> S_Idle}"
    by (rule finite_subset [OF _ finite.insertI [OF fin, of i]]) (auto simp: t(2))
  with t i show "\<exists>i es t. run (send_step T X) s (Spawn i m # es) = Some t \<and> (\<forall>e \<in> set es. send_mine i e) \<and>
      send_result t i = Some r \<and> send_rest T t \<and> send_abs_of T t = a' \<and> scalls t = scalls s @ cs"
    by (intro exI [of _ i] exI [of _ "map (Step i) as"] exI [of _ t])
      (auto simp: send_mine_def send_result_def send_rest_def)
qed (rule send_solo_step)

end
