(* ===== verification/Send_Properties.thy ===== *)
theory Send_Properties
  imports Send_Safety Send_Refinement
begin

text \<open>
  The properties of \<^verbatim>\<open>src/send_stream.rs\<close>, over every interleaving of the tasks on one stream, with
  their instances on concrete runs.
\<close>

lemmas send_eval =
  send_step_defs send_abort_def send_init_def send_new_def send_holds_def Let_def

section \<open>Runs without contention\<close>

text \<open>
  C30: \<^verbatim>\<open>reset(code)\<close> run on its own. On a cancelled token it raises StreamClosedLocally and changes
  nothing. Otherwise it returns normally with the code stored and the token cancelled; it sends
  RESET_STREAM with that code when the lock is free and makes no call when it is held.
\<close>

theorem send_reset_alone:
  assumes ok: "tokio_ok T" and at: "stask s i = R_Check code"
  shows "\<exists>n t. run (send_step T X) s (replicate n (Step i None)) = Some t \<and>
    (if scancelled T s
     then t = s\<lparr>stask := (stask s)(i := S_Done (Inl already_closed))\<rparr>
     else stask t = (stask s)(i := S_Done (Inr PyNone)) \<and> scancelled T t \<and>
       ss_reset_code (sobj t) = code \<and> (slocked T t \<longleftrightarrow> slocked T s) \<and>
       scalls t = scalls s @ (if slocked T s then [] else [Call_reset code]))"
proof -
  consider (c) "scancelled T s" | (l) "\<not> scancelled T s" "try_lock T (ss_inner (sobj s)) = None"
    | (f) m where "\<not> scancelled T s" "try_lock T (ss_inner (sobj s)) = Some m" by fastforce
  then show ?thesis
  proof cases
    case c
    then show ?thesis by (intro exI [of _ "Suc 0"]) (simp add: at send_step_defs)
  next
    case l
    then show ?thesis
      by (intro exI [of _ "Suc (Suc (Suc (Suc 0)))"])
        (simp add: at send_step_defs locked_def token_cancelled [OF ok])
  next
    case f
    have "\<not> locked T (unlock T m)" "\<not> slocked T s"
      using try_lock_locked [OF ok f(2)] unlock_free [OF ok] try_lock_free [OF f(2)] by auto
    with f show ?thesis
      by (intro exI [of _ "Suc (Suc (Suc (Suc (Suc (Suc 0)))))"])
        (simp add: at send_step_defs token_cancelled [OF ok])
  qed
qed

theorem send_reset_alone_witness:
  "\<exists>n t. run (send_step tokio_bits ext_ref)
     ((send_init tokio_bits (Inr 0))\<lparr>stask := (\<lambda>_. S_Idle)(3 := R_Check 42)\<rparr>)
     (replicate n (Step 3 None)) = Some t \<and> scalls t = [Call_reset 42]"
  using send_reset_alone [OF tokio_bits_ok,
      of "(send_init tokio_bits (Inr 0))\<lparr>stask := (\<lambda>_. S_Idle)(3 := R_Check 42)\<rparr>" 3 42 ext_ref]
  by (auto simp: send_init_def send_new_def Let_def)

section \<open>Methods that do not overlap\<close>

text \<open>
  C3: methods that run one after the other behave like the atomic methods of the abstract stream, from
  every state with the lock free. Each result, each call on the QUIC stream and each change of
  state is one the specification allows, and every behaviour the specification allows can happen:
  an open stream syncs its priority, makes the method's own call and returns what the closure
  makes of the answer; a closed one raises StreamClosedLocally and repeats RESET_STREAM.
\<close>

theorem send_refines_spec:
  assumes "tokio_ok T" "send_rest T s"
  shows "(\<forall>t. sequential (send_step T X) Spawn send_mine send_result s k t \<longrightarrow>
      (\<exists>cs. scalls t = scalls s @ cs \<and>
        spec_trace (send_spec X) (send_abs_of T s) k (send_abs_of T t) cs)) \<and>
    (\<forall>a' cs. spec_trace (send_spec X) (send_abs_of T s) k a' cs \<longrightarrow>
      (\<exists>t. sequential (send_step T X) Spawn send_mine send_result s k t \<and>
        send_abs_of T t = a' \<and> scalls t = scalls s @ cs))"
  using snd.sequential_sound [OF _ assms] snd.sequential_complete [OF _ assms refl] by blast

theorem send_refines_spec_witness:
  "\<exists>t. sequential (send_step tokio_bits ext_ref) Spawn send_mine send_result
     (send_init tokio_bits (Inr 0))
     [(M_write [1], Inr PyNone), (M_reset 9, Inr PyNone),
      (M_finish, Inl (new_err StreamClosedLocally ''stream reset locally''))] t \<and>
   scalls t = [Call_write_all [1], Call_reset 9, Call_reset 9]"
proof -
  let ?s = "send_init tokio_bits (Inr 0)"
  have rest: "send_rest tokio_bits ?s" by (simp add: send_rest_def send_init_def send_new_def)
  have w: "\<exists>ans. write_fn_ret ext_ref (Op_write [1]) ans = Some (Inr PyNone)"
    by (intro exI [of _ "Resp_write_all (Inr ())"]) simp
  have "spec_trace (send_spec ext_ref) (send_abs_of tokio_bits ?s)
     [(M_write [1], Inr PyNone), (M_reset 9, Inr PyNone),
      (M_finish, Inl (new_err StreamClosedLocally ''stream reset locally''))]
     ((send_abs_of tokio_bits ?s)\<lparr>sa_closed := True, sa_code := 9\<rparr>)
     ([Call_write_all [1]] @ [Call_reset 9] @ [Call_reset 9] @ [])"
    by (intro trace_Cons trace_Nil)
      (use w in \<open>auto simp: send_op_spec_def sync_calls_def send_abs_of_def send_init_def
        send_new_def Let_def\<close>)
  with send_refines_spec [OF tokio_bits_ok rest, of ext_ref] show ?thesis
    by (fastforce simp: send_init_def)
qed

section \<open>Every interleaving\<close>

text \<open>
  C5: mutual exclusion. In every reachable state at most one task has the guard of the QUIC
  stream, and the mutex is locked exactly while some task has it; every call on the QUIC stream
  is made by a task that has the guard.
\<close>

theorem send_guard_exclusive:
  assumes "tokio_ok T" "reach (send_step T X) (send_init T p) s"
  shows "(\<forall>i j. send_holds (stask s i) \<and> send_holds (stask s j) \<longrightarrow> i = j) \<and>
    (slocked T s \<longleftrightarrow> (\<exists>i. send_holds (stask s i))) \<and>
    (\<forall>i r t. send_step T X (Step i r) s = Some t \<and> scalls t \<noteq> scalls s \<longrightarrow> send_holds (stask s i))"
proof (intro conjI allI impI)
  have start: "\<exists>q. send_init T p = send_init T q" by blast
  show "i = j" if "send_holds (stask s i) \<and> send_holds (stask s j)" for i j
    using snd.mutual_exclusion [OF assms(1) start assms(2)] that by blast
  show "slocked T s \<longleftrightarrow> (\<exists>i. send_holds (stask s i))"
    by (rule snd.locked_iff_held [OF assms(1) start assms(2)])
  show "send_holds (stask s i)"
    if "send_step T X (Step i r) s = Some t \<and> scalls t \<noteq> scalls s" for i r t
    using that
    by (cases "stask s i") (auto simp: send_step_defs send_holds_def split: send_splits)
qed

theorem send_guard_exclusive_witness:
  "\<exists>s. run (send_step tokio_bits ext_ref) (send_init tokio_bits (Inr 0))
     [Spawn 0 M_finish, Spawn 1 M_wait_closed, Step 0 None, Step 0 None] = Some s \<and>
   send_holds (stask s 0) \<and> (\<forall>j. send_holds (stask s j) \<longrightarrow> j = 0) \<and> slocked tokio_bits s"
proof -
  let ?es = "[Spawn 0 M_finish, Spawn 1 M_wait_closed, Step 0 None, Step 0 None]"
  have "\<exists>s. run (send_step tokio_bits ext_ref) (send_init tokio_bits (Inr 0)) ?es = Some s
    \<and> send_holds (stask s 0)" by (simp add: send_eval)
  then obtain s where s: "run (send_step tokio_bits ext_ref) (send_init tokio_bits (Inr 0)) ?es = Some s"
    and h: "send_holds (stask s 0)" by blast
  show ?thesis
    using send_guard_exclusive [OF tokio_bits_ok run_reach [OF s]] s h by blast
qed

text \<open>
  C1: an operation that is at the head of its \<^verbatim>\<open>select!\<close> when the token is cancelled (it was started
  after the reset, or was pending) never completes in any other way: when it returns, it raises
  StreamClosedLocally, and RESET_STREAM was sent after the cancellation.
\<close>

theorem send_reset_interrupts:
  assumes "tokio_ok T" "scancelled T s" "stask s i = S_Select op b"
    "reach (send_step T X) s t" "stask t i = S_Done res"
  shows "res = Inl (new_err StreamClosedLocally ''stream reset locally'') \<and>
    (\<exists>c. Call_reset c \<in> set (drop (length (scalls s)) (scalls t)))"
  using send_doomed_sends_reset [OF assms(1,4,2,3,5)]
  by (simp add: reset_locally_def send_reset_since_def)

theorem send_reset_interrupts_witness:
  "\<exists>s t res. run (send_step tokio_bits ext_ref) (send_init tokio_bits (Inr 0))
     [Spawn 0 (M_write [1]), Step 0 None, Step 0 None, Step 0 None, Step 0 None, Step 0 None,
      Spawn 1 (M_reset 9), Step 1 None, Step 1 None, Step 1 None, Step 1 None] = Some s \<and>
   run (send_step tokio_bits ext_ref) s
     [Step 0 None, Step 0 None, Step 0 None, Step 0 None, Step 0 None] = Some t \<and>
   stask t 0 = S_Done res \<and> res = Inl (new_err StreamClosedLocally ''stream reset locally'') \<and>
   (\<exists>c. Call_reset c \<in> set (drop (length (scalls s)) (scalls t)))"
proof -
  let ?es = "[Spawn 0 (M_write [1]), Step 0 None, Step 0 None, Step 0 None, Step 0 None, Step 0 None,
      Spawn 1 (M_reset 9), Step 1 None, Step 1 None, Step 1 None, Step 1 None]"
  let ?fs = "[Step 0 None, Step 0 None, Step 0 None, Step 0 None, Step 0 None]"
  have "\<exists>s. run (send_step tokio_bits ext_ref) (send_init tokio_bits (Inr 0)) ?es = Some s \<and>
    scancelled tokio_bits s \<and> stask s 0 = S_Select (Op_write [1]) B_Call \<and>
    (\<exists>t res. run (send_step tokio_bits ext_ref) s ?fs = Some t \<and> stask t 0 = S_Done res)"
    by (simp add: send_eval)
  then obtain s t res where
      s: "run (send_step tokio_bits ext_ref) (send_init tokio_bits (Inr 0)) ?es = Some s"
    and c: "scancelled tokio_bits s" "stask s 0 = S_Select (Op_write [1]) B_Call"
    and t: "run (send_step tokio_bits ext_ref) s ?fs = Some t" "stask t 0 = S_Done res"
    by blast
  show ?thesis
    using s t send_reset_interrupts [OF tokio_bits_ok c run_reach [OF t(1)] t(2)] by blast
qed

text \<open>
  C32: every RESET_STREAM carries a code that was asked for: one given to \<^verbatim>\<open>reset\<close>, or 0 when an
  \<^verbatim>\<open>async with\<close> block was left by an exception. The initial value of the code is never sent.
\<close>

theorem send_reset_code_requested:
  assumes "tokio_ok T" "run (send_step T X) (send_init T p) es = Some t"
    "Call_reset c \<in> set (scalls t)"
  shows "(\<exists>i. Spawn i (M_reset c) \<in> set es) \<or> c = 0 \<and> (\<exists>i. Spawn i (M_aexit True) \<in> set es)"
  using code_inv_run [OF assms(1,2)] assms(3)
  by (force simp: code_inv_def requested_codes_def)

theorem send_reset_code_requested_witness:
  "\<exists>t. run (send_step tokio_bits ext_ref) (send_init tokio_bits (Inr 0))
     ([Spawn 4 (M_reset 42)] @ replicate 6 (Step 4 None)) = Some t \<and>
   Call_reset 42 \<in> set (scalls t) \<and>
   (\<exists>i. Spawn i (M_reset 42) \<in> set ([Spawn 4 (M_reset 42)] @ replicate 6 (Step 4 None :: nat send_event)))"
proof -
  let ?es = "[Spawn 4 (M_reset 42)] @ replicate 6 (Step 4 None) :: nat send_event list"
  have "\<exists>t. run (send_step tokio_bits ext_ref) (send_init tokio_bits (Inr 0)) ?es = Some t \<and>
    Call_reset 42 \<in> set (scalls t)" by (simp add: send_eval numeral_eq_Suc)
  then obtain t where "run (send_step tokio_bits ext_ref) (send_init tokio_bits (Inr 0)) ?es = Some t"
    "Call_reset 42 \<in> set (scalls t)" by blast
  with send_reset_code_requested [OF tokio_bits_ok this] show ?thesis by auto
qed

text \<open>
  C10: a reset is not forgotten. In a run where no task is overtaken (no write, clean exit or priority
  setter that had the guard finishes, and no future that owes the reset is dropped, between the
  cancellation and the reset), once the token is cancelled and every task is done, RESET_STREAM
  was sent: by the reset or exceptional exit itself, or by the operation it interrupted.
\<close>

theorem send_reset_delivered:
  assumes "tokio_ok T" "run (send_timely_step T X (send_bystander es)) (send_init T p) es = Some t"
    "scancelled T t" "\<forall>i. send_quiet (stask t i)"
  shows "\<exists>c. Call_reset c \<in> set (scalls t)"
proof -
  have "reach (snd.timely T X) (send_init T p) t"
    by (rule send_timely_run [OF assms(2) send_init_sender]) (auto simp: send_bystander_def)
  then have "reset_sent t"
    by (rule snd.delivered [OF assms(1) _ _ assms(3), rotated]) (use assms(4) send_quiet_owes in auto)
  then show ?thesis by (simp add: reset_sent_def)
qed

theorem send_reset_delivered_witness:
  "\<exists>t. run (send_timely_step tokio_bits ext_ref (\<lambda>i. i = 0)) (send_init tokio_bits (Inr 0))
     ([Spawn 0 (M_write [1])] @ replicate 5 (Step 0 None) @ [Spawn 1 (M_reset 9)] @
      replicate 4 (Step 1 None) @ replicate 5 (Step 0 None)) = Some t \<and>
   (\<exists>c. Call_reset c \<in> set (scalls t))"
proof -
  let ?es = "[Spawn 0 (M_write [1])] @ replicate 5 (Step 0 None) @ [Spawn 1 (M_reset 9)] @
      replicate 4 (Step 1 None) @ replicate 5 (Step 0 None) :: nat send_event list"
  have B: "send_bystander ?es = (\<lambda>i. i = 0)" by (intro ext) (auto simp: send_bystander_def)
  have "\<exists>t. run (send_timely_step tokio_bits ext_ref (\<lambda>i. i = 0)) (send_init tokio_bits (Inr 0)) ?es = Some t \<and>
    scancelled tokio_bits t \<and> (\<forall>i. send_quiet (stask t i))"
    by (simp add: send_eval numeral_eq_Suc send_timely_step_def reset_sent_def send_quiet_def)
  then obtain t where
    t: "run (send_timely_step tokio_bits ext_ref (\<lambda>i. i = 0)) (send_init tokio_bits (Inr 0)) ?es = Some t"
    "scancelled tokio_bits t" "\<forall>i. send_quiet (stask t i)" by blast
  from send_reset_delivered [OF tokio_bits_ok t(1) [folded B] t(2,3)] t(1) show ?thesis by blast
qed

text \<open>
  C12: without that condition it can be forgotten, by a single write and an uninterrupted reset. There
  is a run of two tasks, a \<^verbatim>\<open>write\<close> and a \<^verbatim>\<open>reset(code)\<close> whose steps nothing separates: the write has the
  guard and has passed its cancellation check, the reset finds the lock held and returns normally,
  and the write then completes in the same poll. Every task is done, both methods succeeded, the
  token is cancelled, and the only call ever made on the QUIC stream is the write.
\<close>

theorem send_reset_lost:
  assumes ok: "tokio_ok T"
  shows "\<exists>es\<^sub>1 es\<^sub>2 t. run (send_step T X) (send_init T p)
      (es\<^sub>1 @ (Spawn 1 (M_reset code) # replicate 4 (Step 1 None)) @ es\<^sub>2) = Some t \<and>
    Spawn 0 (M_write data) \<in> set es\<^sub>1 \<and>
    (\<forall>e \<in> set (es\<^sub>1 @ es\<^sub>2). e = Spawn 0 (M_write data) \<or> (\<exists>r. e = Step 0 r)) \<and>
    stask t 1 = S_Done (Inr PyNone) \<and> stask t 0 = S_Done (Inr PyNone) \<and>
    (\<forall>i. send_quiet (stask t i)) \<and> scancelled T t \<and> scalls t = [Call_write_all data]"
proof -
  let ?es1 = "[Spawn 0 (M_write data), Step 0 None, Step 0 None, Step 0 None, Step 0 None]"
  let ?es2 = "[Step 0 (Some (Resp_write_all (Inr ()))), Step 0 None]"
  obtain m where m: "try_lock T (mutex_new T) = Some m"
    using tokio_new [OF ok] by (auto elim: not_locked_obtain)
  have m': "try_lock T m = None" using try_lock_locked [OF ok m] by (simp add: locked_def)
  have "\<exists>t. run (send_step T X) (send_init T p)
      (?es1 @ (Spawn 1 (M_reset code) # replicate 4 (Step 1 None)) @ ?es2) = Some t \<and>
    stask t 1 = S_Done (Inr PyNone) \<and> stask t 0 = S_Done (Inr PyNone) \<and>
    (\<forall>i. send_quiet (stask t i)) \<and> scancelled T t \<and> scalls t = [Call_write_all data]"
    using tokio_new [OF ok] token_cancelled [OF ok]
    by (simp add: send_eval m m' send_quiet_def numeral_eq_Suc)
  then show ?thesis by (elim exE, intro exI [of _ ?es1] exI [of _ ?es2] exI) auto
qed

theorem send_reset_lost_witness:
  "\<exists>es\<^sub>1 es\<^sub>2 t. run (send_step tokio_bits ext_ref) (send_init tokio_bits (Inr 0))
      (es\<^sub>1 @ (Spawn 1 (M_reset 42) # replicate 4 (Step 1 None)) @ es\<^sub>2) = Some t \<and>
    stask t 1 = S_Done (Inr PyNone) \<and> stask t 0 = S_Done (Inr PyNone) \<and> scalls t = [Call_write_all [1, 2]]"
  using send_reset_lost [OF tokio_bits_ok, of ext_ref "Inr 0" 42 "[1, 2]"] by blast

text \<open>
  C25: priorities. Whenever no task has the guard, and whenever a closure is about to run, the
  priority last pushed to the QUIC stream is the one recorded as synced, so the comparison that
  decides whether to push again is sound and no change of priority is lost.
\<close>

theorem send_priority_in_sync:
  assumes "tokio_ok T" "reach (send_step T X) (send_init T p) t"
    "(\<forall>i. \<not> send_holds (stask t i)) \<or> (\<exists>i op. stask t i = S_Run op)"
  shows "ss_synced_priority (sobj t) = pushed (ss_priority (send_new T p)) (scalls t)"
proof -
  have "syncing (stask t j) = None" for j
  proof (rule ccontr)
    assume "syncing (stask t j) \<noteq> None"
    then have h: "send_holds (stask t j)" using syncing_holds by auto
    with assms(3) obtain i op where i: "stask t i = S_Run op" by blast
    then have "send_holds (stask t i)" by (simp add: send_holds_def)
    with h have "j = i" using snd.mutual_exclusion [OF assms(1) _ assms(2)] by blast
    with i \<open>syncing (stask t j) \<noteq> None\<close> show False by (simp add: syncing_def)
  qed
  with prio_inv_reach [OF assms(1,2)] show ?thesis by (simp add: prio_inv_def)
qed

theorem send_priority_in_sync_witness:
  "\<exists>t. run (send_step tokio_bits ext_ref) (send_init tokio_bits (Inr 1))
     [Spawn 0 (M_set_priority 7), Step 0 None, Step 0 None, Step 0 None, Step 0 None, Step 0 None]
     = Some t \<and> ss_synced_priority (sobj t) = 7 \<and> pushed 1 (scalls t) = 7"
proof -
  let ?es = "[Spawn 0 (M_set_priority 7), Step 0 None, Step 0 None, Step 0 None, Step 0 None, Step 0 None]"
  have "\<exists>t. run (send_step tokio_bits ext_ref) (send_init tokio_bits (Inr 1)) ?es = Some t \<and>
    (\<forall>i. \<not> send_holds (stask t i)) \<and> ss_synced_priority (sobj t) = 7" by (simp add: send_eval)
  then obtain t where t: "run (send_step tokio_bits ext_ref) (send_init tokio_bits (Inr 1)) ?es = Some t"
    "\<forall>i. \<not> send_holds (stask t i)" "ss_synced_priority (sobj t) = 7" by blast
  with send_priority_in_sync [OF tokio_bits_ok run_reach [OF t(1)]] show ?thesis
    by (auto simp: send_new_def)
qed

text \<open>
  C23: nothing hangs after a reset. From every reachable state with the token cancelled, all tasks can
  run to completion without any answer from the peer: no awaited call has to return.
\<close>

theorem send_cancelled_finishes:
  assumes "tokio_ok T" "reach (send_step T X) (send_init T p) s" "scancelled T s"
  shows "\<exists>es t. run (send_step T X) s es = Some t \<and>
    (\<forall>e \<in> set es. \<exists>i. e = Step i None \<or> e = Step i (Some (Resp_finish (Inr ())))) \<and>
    (\<forall>i. send_quiet (stask t i))"
  using snd.finishes [OF assms(1) _ assms(2,3)] by (simp add: peerless_def) blast

theorem send_cancelled_finishes_witness:
  "\<exists>s es t. run (send_step tokio_bits ext_ref) (send_init tokio_bits (Inr 0))
     ([Spawn 0 (M_write [1])] @ replicate 5 (Step 0 None) @ [Spawn 1 (M_reset 9)] @
      replicate 4 (Step 1 None)) = Some s \<and> \<not> send_quiet (stask s 0) \<and>
   run (send_step tokio_bits ext_ref) s es = Some t \<and> (\<forall>i. send_quiet (stask t i))"
proof -
  let ?es = "[Spawn 0 (M_write [1])] @ replicate 5 (Step 0 None) @ [Spawn 1 (M_reset 9)] @
      replicate 4 (Step 1 None)"
  have "\<exists>s. run (send_step tokio_bits ext_ref) (send_init tokio_bits (Inr 0)) ?es = Some s \<and>
    scancelled tokio_bits s \<and> \<not> send_quiet (stask s 0)"
    by (simp add: send_eval numeral_eq_Suc send_quiet_def)
  then obtain s where s: "run (send_step tokio_bits ext_ref) (send_init tokio_bits (Inr 0)) ?es = Some s"
    "scancelled tokio_bits s" "\<not> send_quiet (stask s 0)" by blast
  with send_cancelled_finishes [OF tokio_bits_ok run_reach [OF s(1)] s(2)] show ?thesis by blast
qed

text \<open>
  C15: a stream comes to rest after a reset. From every reachable state with the token cancelled, a run in
  which no method is started changes the state at most 10 times for each task that is not done,
  whatever the schedule, the answers of the peer and the futures asyncio drops; the events not
  counted change nothing, as a failed attempt to take the lock does. A run that no task can take
  further without the peer has every task done.
\<close>

theorem send_cancelled_terminates:
  assumes "tokio_ok T" "reach (send_step T X) (send_init T p) s" "scancelled T s"
    "run (send_step T X) s es = Some t" "\<forall>e \<in> set es. \<forall>i m. e \<noteq> Spawn i m"
  shows "changes (send_step T X) s es \<le> 10 * card {i. \<not> send_quiet (stask s i)} \<and>
    ((\<forall>e u. (\<exists>i. e = Step i None \<or> e = Step i (Some (Resp_finish (Inr ())))) \<and> send_step T X e t = Some u \<longrightarrow> u = t) \<longrightarrow>
      (\<forall>i. send_quiet (stask t i)))"
proof (intro conjI impI allI)
  have "finite {i. stask s i \<noteq> S_Idle}" using snd.fin_reach [OF _ assms(2)] by blast
  with snd.bounded [OF assms(1) _ assms(3,4)] assms(5) send_work_le [of s]
  show "changes (send_step T X) s es \<le> 10 * card {i. \<not> send_quiet (stask s i)}"
    by (fastforce simp: send_starts_def)
  have "reach (send_step T X) (send_init T p) t" using assms(2) run_reach [OF assms(4)] by (rule reach_trans)
  then show "send_quiet (stask t i)"
    if "\<forall>e u. (\<exists>i. e = Step i None \<or> e = Step i (Some (Resp_finish (Inr ())))) \<and> send_step T X e t = Some u \<longrightarrow> u = t" for i
    using snd.stuck_quiet [OF assms(1) _ _ snd.cancelled_run [OF assms(1,3,4)]] that
    unfolding peerless_def by blast
qed

theorem send_cancelled_terminates_witness:
  "\<exists>s t. run (send_step tokio_bits ext_ref) (send_init tokio_bits (Inr 0))
     ([Spawn 0 (M_write [1])] @ replicate 5 (Step 0 None) @ [Spawn 1 (M_reset 9)] @ replicate 4 (Step 1 None)) = Some s \<and>
   run (send_step tokio_bits ext_ref) s [Step 0 None, Step 0 None, Step 0 None] = Some t \<and> \<not> send_quiet (stask s 0) \<and>
   changes (send_step tokio_bits ext_ref) s [Step 0 None, Step 0 None, Step 0 None] \<le>
     10 * card {i. \<not> send_quiet (stask s i)}"
proof -
  let ?es = "[Spawn 0 (M_write [1])] @ replicate 5 (Step 0 None) @ [Spawn 1 (M_reset 9)] @ replicate 4 (Step 1 None)"
  let ?fs = "[Step 0 None, Step 0 None, Step 0 None]"
  have "\<exists>s t. run (send_step tokio_bits ext_ref) (send_init tokio_bits (Inr 0)) ?es = Some s \<and>
    run (send_step tokio_bits ext_ref) s ?fs = Some t \<and> scancelled tokio_bits s \<and> \<not> send_quiet (stask s 0)"
    by (simp add: send_eval numeral_eq_Suc send_quiet_def)
  then obtain s t where s: "run (send_step tokio_bits ext_ref) (send_init tokio_bits (Inr 0)) ?es = Some s"
    and t: "run (send_step tokio_bits ext_ref) s ?fs = Some t"
    and c: "scancelled tokio_bits s" "\<not> send_quiet (stask s 0)" by blast
  have "\<forall>e \<in> set ?fs. \<forall>i m. e \<noteq> Spawn i m" by simp
  from send_cancelled_terminates [OF tokio_bits_ok run_reach [OF s] c(1) t this] s t c
  show ?thesis by blast
qed

end
