(* ===== verification/Recv_Stream.thy ===== *)
theory Recv_Stream
  imports Async_Core Error_Mapping
begin

text \<open>
  \<^verbatim>\<open>src/recv_stream.rs\<close>: a QUIC receive stream behind a mutex, with a cancellation token that
  \<^verbatim>\<open>stop()\<close> fires and a flag that remembers the end of the stream. As for the send stream, the
  model interleaves the atomic actions of the tasks on one object, records the calls made on the
  QUIC stream, and takes its answers from the events of a run.
\<close>

section \<open>The object and the calls on the QUIC stream\<close>

record ('mx, 'tok) recv_stream =
  rs_inner :: 'mx
  rs_cancel :: 'tok
  rs_stop_code :: u32
  rs_eof :: bool

datatype recv_call =
    Call_read_chunk usize bool
  | Call_read_to_end usize
  | Call_read_exact usize
  | Call_received_reset
  | Call_stop u32

text \<open>
  What an awaited call returns. \<^verbatim>\<open>read_exact\<close> also leaves the buffer it was given, whose length
  it cannot change.
\<close>

datatype 'x recv_resp =
    Resp_chunk "'x read_error + bytes option"
  | Resp_to_end "'x read_to_end_error + bytes"
  | Resp_exact bytes "'x read_exact_error + unit"
  | Resp_reset "'x session_error + u32 option"

definition recv_new :: "('mx, 'tok) tokio \<Rightarrow> ('mx, 'tok) recv_stream" where
  "recv_new T = \<lparr>rs_inner = mutex_new T, rs_cancel = token_new T, rs_stop_code = 0, rs_eof = False\<rparr>"

section \<open>The closures passed to cancellable_read\<close>

datatype recv_op =
    Op_anext
  | Op_read i64 "usize option"
  | Op_readexactly usize
  | Op_recv_wait_closed

text \<open>A closure returns to Python, or panics.\<close>

datatype recv_out = Returned "py_err + py_val" | Panicked

text \<open>\<^verbatim>\<open>vec![0u8; n]\<close> panics when \<^verbatim>\<open>n\<close> exceeds \<^verbatim>\<open>isize::MAX\<close>.\<close>

definition isize_MAX :: nat where
  "isize_MAX = 2 ^ 63 - 1"

text \<open>
  The part of a closure before its call: it has read the end-of-stream flag, and returns at once
  (left) or calls the QUIC stream (right).
\<close>

fun read_fn :: "recv_op \<Rightarrow> bool \<Rightarrow> recv_out + recv_call" where
  "read_fn Op_anext eof =
     (if eof then Inl (Returned (Inl stop_async_iteration))
      else Inr (Call_read_chunk 65536 True))"
| "read_fn (Op_read n limit) eof =
     (if eof then Inl (Returned (Inr (PyBytes [])))
      else if sint n < 0 then
        (let limit = (case limit of None \<Rightarrow> usize_MAX | Some l \<Rightarrow> l) in Inr (Call_read_to_end limit))
      else if n = 0 then Inl (Returned (Inr (PyBytes [])))
      else Inr (Call_read_chunk n True))"
| "read_fn (Op_readexactly n) eof =
     (if n > 0 \<and> eof then Inl (Returned (Inl (new_stream_incomplete_read_error n [])))
      else if unat n > isize_MAX then Inl Panicked
      else Inr (Call_read_exact n))"
| "read_fn Op_recv_wait_closed eof = Inr Call_received_reset"

text \<open>
  The part after the call: what the closure returns, and whether it first stores the
  end-of-stream flag. \<open>None\<close> for the answer of another call.
\<close>

fun read_fn_ret :: "'x ext \<Rightarrow> recv_op \<Rightarrow> 'x recv_resp \<Rightarrow> (recv_out \<times> bool) option" where
  "read_fn_ret X Op_anext (Resp_chunk r) =
     Some (case r of
         Inl e \<Rightarrow> (Returned (Inl (map_read_error X e)), False)
       | Inr (Some chunk) \<Rightarrow> (Returned (Inr (PyBytes chunk)), False)
       | Inr None \<Rightarrow> (Returned (Inl stop_async_iteration), True))"
| "read_fn_ret X (Op_read n limit) (Resp_to_end r) =
     (if sint n < 0 then
        let limit = (case limit of None \<Rightarrow> usize_MAX | Some l \<Rightarrow> l) in
        Some (case r of
            Inl e \<Rightarrow> (Returned (Inl (map_read_to_end_error X e limit)), False)
          | Inr data \<Rightarrow> (Returned (Inr (PyBytes data)), True))
      else None)"
| "read_fn_ret X (Op_read n limit) (Resp_chunk r) =
     (if sint n > 0 then
        Some (case r of
            Inl e \<Rightarrow> (Returned (Inl (map_read_error X e)), False)
          | Inr (Some chunk) \<Rightarrow> (Returned (Inr (PyBytes chunk)), False)
          | Inr None \<Rightarrow> (Returned (Inr (PyBytes [])), True))
      else None)"
| "read_fn_ret X (Op_readexactly n) (Resp_exact buf r) =
     (if length buf = unat n then
        Some (case r of
            Inr _ \<Rightarrow> (Returned (Inr (PyBytes buf)), False)
          | Inl e \<Rightarrow>
              ((case map_read_exact_error X e n buf of
                  None \<Rightarrow> Panicked | Some err \<Rightarrow> Returned (Inl err)),
               (case e of ReadExactError_FinishedEarly _ \<Rightarrow> True | _ \<Rightarrow> False)))
      else None)"
| "read_fn_ret X Op_recv_wait_closed (Resp_reset r) =
     Some (Returned (map_ok (\<lambda>c. case c of None \<Rightarrow> PyNone | Some n \<Rightarrow> PyInt (uint n))
       (map_err (map_session_error X) r)), False)"
| "read_fn_ret X _ _ = None"

section \<open>Program counters\<close>

text \<open>
  \<open>V_\<close>: the future made by \<^verbatim>\<open>cancellable_read\<close>. \<open>H_\<close>: \<^verbatim>\<open>stop\<close>. \<open>Y_\<close>: \<^verbatim>\<open>__aexit__\<close>.
\<close>

datatype recv_body = D_Lock | D_Call

datatype recv_pc =
    V_Idle
  | V_Select recv_op recv_body
  | V_Poll recv_op recv_body
  | V_Run recv_op
  | V_EofStore recv_out        \<comment> \<open>about to store \<^verbatim>\<open>eof = true\<close>, then return\<close>
  | V_CancelLock
  | V_CancelHeld
  | V_CancelStop u32
  | V_Drop recv_out
  | V_Done recv_out
  | V_Aborted
  | H_Check u32 | H_Store u32 | H_Cancel u32 | H_TryLock u32 | H_Stop u32
  | Y_Store | Y_Cancel | Y_LockStop | Y_Stop
  | Y_LoadEof | Y_LockClean | Y_StopClean

definition stopped_locally :: py_err where
  "stopped_locally = new_err StreamClosedLocally ''stream stopped locally''"

definition recv_already_closed :: py_err where
  "recv_already_closed = new_err StreamClosedLocally ''stream already closed''"

section \<open>One atomic step of a task\<close>

type_synonym ('mx, 'tok) recv_res = "(recv_pc \<times> ('mx, 'tok) recv_stream \<times> recv_call list) option"

definition after_call :: "recv_out \<times> bool \<Rightarrow> recv_pc" where
  "after_call ob = (if snd ob then V_EofStore (fst ob) else V_Drop (fst ob))"

definition cancellable_read ::
  "('mx, 'tok) tokio \<Rightarrow> 'x ext \<Rightarrow> 'x recv_resp option \<Rightarrow> recv_pc \<Rightarrow>
   ('mx, 'tok) recv_stream \<Rightarrow> ('mx, 'tok) recv_res" where
  "cancellable_read T X r pc s =
     (case pc of
        V_Select op b \<Rightarrow>
          (if is_cancelled T (rs_cancel s)
           then Some (V_CancelLock,
             (case b of D_Lock \<Rightarrow> s | D_Call \<Rightarrow> s\<lparr>rs_inner := unlock T (rs_inner s)\<rparr>), [])
           else Some (V_Poll op b, s, []))
      | V_Poll op D_Lock \<Rightarrow>
          (case try_lock T (rs_inner s) of
             None \<Rightarrow> Some (V_Select op D_Lock, s, [])
           | Some m \<Rightarrow> Some (V_Run op, s\<lparr>rs_inner := m\<rparr>, []))
      | V_Run op \<Rightarrow>
          (case read_fn op (rs_eof s) of
             Inl out \<Rightarrow> Some (V_Drop out, s, [])
           | Inr call \<Rightarrow>
               (case r of
                  None \<Rightarrow> Some (V_Select op D_Call, s, [call])
                | Some a \<Rightarrow> map_option (\<lambda>ob. (after_call ob, s, [call])) (read_fn_ret X op a)))
      | V_Poll op D_Call \<Rightarrow>
          (case r of
             None \<Rightarrow> Some (V_Select op D_Call, s, [])
           | Some a \<Rightarrow> map_option (\<lambda>ob. (after_call ob, s, [])) (read_fn_ret X op a))
      | V_EofStore out \<Rightarrow> Some (V_Drop out, s\<lparr>rs_eof := True\<rparr>, [])
      | V_CancelLock \<Rightarrow>
          (case try_lock T (rs_inner s) of
             None \<Rightarrow> Some (V_CancelLock, s, [])
           | Some m \<Rightarrow> Some (V_CancelHeld, s\<lparr>rs_inner := m\<rparr>, []))
      | V_CancelHeld \<Rightarrow> Some (V_CancelStop (rs_stop_code s), s, [])
      | V_CancelStop code \<Rightarrow>
          Some (V_Drop (Returned (Inl stopped_locally)), s, [Call_stop code])
      | V_Drop out \<Rightarrow> Some (V_Done out, s\<lparr>rs_inner := unlock T (rs_inner s)\<rparr>, [])
      | _ \<Rightarrow> None)"

definition recv_stop ::
  "('mx, 'tok) tokio \<Rightarrow> recv_pc \<Rightarrow> ('mx, 'tok) recv_stream \<Rightarrow> ('mx, 'tok) recv_res" where
  "recv_stop T pc s =
     (case pc of
        H_Check error_code \<Rightarrow>
          (if is_cancelled T (rs_cancel s)
           then Some (V_Done (Returned (Inl recv_already_closed)), s, [])
           else Some (H_Store error_code, s, []))
      | H_Store error_code \<Rightarrow> Some (H_Cancel error_code, s\<lparr>rs_stop_code := error_code\<rparr>, [])
      | H_Cancel error_code \<Rightarrow>
          Some (H_TryLock error_code, s\<lparr>rs_cancel := token_cancel T (rs_cancel s)\<rparr>, [])
      | H_TryLock error_code \<Rightarrow>
          (case try_lock T (rs_inner s) of
             None \<Rightarrow> Some (V_Done (Returned (Inr PyNone)), s, [])
           | Some m \<Rightarrow> Some (H_Stop error_code, s\<lparr>rs_inner := m\<rparr>, []))
      | H_Stop error_code \<Rightarrow> Some (V_Drop (Returned (Inr PyNone)), s, [Call_stop error_code])
      | _ \<Rightarrow> None)"

text \<open>
  \<^verbatim>\<open>__aexit__\<close>: on an exception, cancel first and then stop; on a clean exit, stop only when the
  end of the stream was not reached.
\<close>

definition recv_aexit ::
  "('mx, 'tok) tokio \<Rightarrow> recv_pc \<Rightarrow> ('mx, 'tok) recv_stream \<Rightarrow> ('mx, 'tok) recv_res" where
  "recv_aexit T pc s =
     (case pc of
        Y_Store \<Rightarrow> Some (Y_Cancel, s\<lparr>rs_stop_code := 0\<rparr>, [])
      | Y_Cancel \<Rightarrow> Some (Y_LockStop, s\<lparr>rs_cancel := token_cancel T (rs_cancel s)\<rparr>, [])
      | Y_LockStop \<Rightarrow>
          (case try_lock T (rs_inner s) of
             None \<Rightarrow> Some (Y_LockStop, s, [])
           | Some m \<Rightarrow> Some (Y_Stop, s\<lparr>rs_inner := m\<rparr>, []))
      | Y_Stop \<Rightarrow> Some (V_Drop (Returned (Inr PyNone)), s, [Call_stop 0])
      | Y_LoadEof \<Rightarrow>
          (if \<not> rs_eof s then Some (Y_LockClean, s, [])
           else Some (V_Done (Returned (Inr PyNone)), s, []))
      | Y_LockClean \<Rightarrow>
          (case try_lock T (rs_inner s) of
             None \<Rightarrow> Some (Y_LockClean, s, [])
           | Some m \<Rightarrow> Some (Y_StopClean, s\<lparr>rs_inner := m\<rparr>, []))
      | Y_StopClean \<Rightarrow> Some (V_Drop (Returned (Inr PyNone)), s, [Call_stop 0])
      | _ \<Rightarrow> None)"

definition recv_pc_step ::
  "('mx, 'tok) tokio \<Rightarrow> 'x ext \<Rightarrow> 'x recv_resp option \<Rightarrow> recv_pc \<Rightarrow>
   ('mx, 'tok) recv_stream \<Rightarrow> ('mx, 'tok) recv_res" where
  "recv_pc_step T X r pc s =
     (case pc of
        H_Check _ \<Rightarrow> recv_stop T pc s
      | H_Store _ \<Rightarrow> recv_stop T pc s
      | H_Cancel _ \<Rightarrow> recv_stop T pc s
      | H_TryLock _ \<Rightarrow> recv_stop T pc s
      | H_Stop _ \<Rightarrow> recv_stop T pc s
      | Y_Store \<Rightarrow> recv_aexit T pc s
      | Y_Cancel \<Rightarrow> recv_aexit T pc s
      | Y_LockStop \<Rightarrow> recv_aexit T pc s
      | Y_Stop \<Rightarrow> recv_aexit T pc s
      | Y_LoadEof \<Rightarrow> recv_aexit T pc s
      | Y_LockClean \<Rightarrow> recv_aexit T pc s
      | Y_StopClean \<Rightarrow> recv_aexit T pc s
      | _ \<Rightarrow> cancellable_read T X r pc s)"

section \<open>The system of tasks on one stream\<close>

datatype recv_method =
    M_anext | M_read i64 "usize option" | M_readexactly usize | M_recv_wait_closed
  | M_stop u32 | M_recv_aexit bool

fun recv_entry :: "recv_method \<Rightarrow> recv_pc" where
  "recv_entry M_anext = V_Select Op_anext D_Lock"
| "recv_entry (M_read n limit) = V_Select (Op_read n limit) D_Lock"
| "recv_entry (M_readexactly n) = V_Select (Op_readexactly n) D_Lock"
| "recv_entry M_recv_wait_closed = V_Select Op_recv_wait_closed D_Lock"
| "recv_entry (M_stop error_code) = H_Check error_code"
| "recv_entry (M_recv_aexit has_exception) = (if has_exception then Y_Store else Y_LoadEof)"

definition recv_abort ::
  "('mx, 'tok) tokio \<Rightarrow> recv_pc \<Rightarrow> ('mx, 'tok) recv_stream \<Rightarrow> ('mx, 'tok) recv_stream option" where
  "recv_abort T pc s =
     (case pc of
        V_Select op D_Lock \<Rightarrow> Some s
      | V_Select op D_Call \<Rightarrow> Some (s\<lparr>rs_inner := unlock T (rs_inner s)\<rparr>)
      | V_CancelLock \<Rightarrow> Some s
      | Y_LockStop \<Rightarrow> Some s
      | Y_LockClean \<Rightarrow> Some s
      | _ \<Rightarrow> None)"

record ('mx, 'tok) recv_sys =
  robj :: "('mx, 'tok) recv_stream"
  rtask :: "nat \<Rightarrow> recv_pc"
  rcalls :: "recv_call list"

datatype 'x recv_event =
    RSpawn nat recv_method
  | RStep nat "'x recv_resp option"
  | RAbort nat

fun recv_step ::
  "('mx, 'tok) tokio \<Rightarrow> 'x ext \<Rightarrow> 'x recv_event \<Rightarrow> ('mx, 'tok) recv_sys \<Rightarrow>
   ('mx, 'tok) recv_sys option" where
  "recv_step T X (RSpawn i m) s =
     (if rtask s i = V_Idle then Some (s\<lparr>rtask := (rtask s)(i := recv_entry m)\<rparr>) else None)"
| "recv_step T X (RStep i r) s =
     map_option (\<lambda>(pc, o', cs). \<lparr>robj = o', rtask = (rtask s)(i := pc), rcalls = rcalls s @ cs\<rparr>)
       (recv_pc_step T X r (rtask s i) (robj s))"
| "recv_step T X (RAbort i) s =
     map_option (\<lambda>o'. s\<lparr>robj := o', rtask := (rtask s)(i := V_Aborted)\<rparr>)
       (recv_abort T (rtask s i) (robj s))"

definition recv_init :: "('mx, 'tok) tokio \<Rightarrow> ('mx, 'tok) recv_sys" where
  "recv_init T = \<lparr>robj = recv_new T, rtask = (\<lambda>_. V_Idle), rcalls = []\<rparr>"

definition recv_holds :: "recv_pc \<Rightarrow> bool" where
  "recv_holds pc = (case pc of
       V_Select op b \<Rightarrow> b = D_Call
     | V_Poll op b \<Rightarrow> b = D_Call
     | V_Run op \<Rightarrow> True
     | V_EofStore out \<Rightarrow> True
     | V_CancelHeld \<Rightarrow> True
     | V_CancelStop c \<Rightarrow> True
     | V_Drop r \<Rightarrow> True
     | H_Stop c \<Rightarrow> True
     | Y_Stop \<Rightarrow> True
     | Y_StopClean \<Rightarrow> True
     | _ \<Rightarrow> False)"

abbreviation rlocked :: "('mx, 'tok) tokio \<Rightarrow> ('mx, 'tok) recv_sys \<Rightarrow> bool" where
  "rlocked T s \<equiv> locked T (rs_inner (robj s))"

abbreviation rcancelled :: "('mx, 'tok) tokio \<Rightarrow> ('mx, 'tok) recv_sys \<Rightarrow> bool" where
  "rcancelled T s \<equiv> is_cancelled T (rs_cancel (robj s))"

end
