(* ===== verification/Recv_Safety.thy ===== *)
theory Recv_Safety
  imports Recv_Stream
begin

text \<open>
  Properties of the receive stream that hold in every interleaving: it follows the guard,
  cancellation, delivery and progress protocols, its stop codes are the requested ones, and the
  end-of-stream flag is final.
\<close>

section \<open>Case analysis of steps\<close>

lemmas recv_step_defs [step_simps] =
  recv_pc_step_def cancellable_read_def recv_stop_def recv_aexit_def after_call_def

lemmas recv_splits = if_splits option.splits recv_body.splits sum.splits

lemma recv_step_cases [consumes 1, case_names Spawn Step Abort]:
  assumes "recv_step T X e s = Some t"
  obtains i m where "e = RSpawn i m" "rtask s i = V_Idle"
      "t = s\<lparr>rtask := (rtask s)(i := recv_entry m)\<rparr>"
  | i r pc o' cs where "e = RStep i r" "recv_pc_step T X r (rtask s i) (robj s) = Some (pc, o', cs)"
      "t = \<lparr>robj = o', rtask = (rtask s)(i := pc), rcalls = rcalls s @ cs\<rparr>"
  | i o' where "e = RAbort i" "recv_abort T (rtask s i) (robj s) = Some o'"
      "t = s\<lparr>robj := o', rtask := (rtask s)(i := V_Aborted)\<rparr>"
  using assms by (cases e) (auto split: if_splits)

lemma recv_step_calls: "recv_step T X e s = Some t \<Longrightarrow> \<exists>cs. rcalls t = rcalls s @ cs"
  by (cases rule: recv_step_cases) auto

section \<open>The guard protocol\<close>

lemma recv_entry_no_guard: "\<not> recv_holds (recv_entry m)"
  by (cases m) (simp_all add: recv_holds_def)

lemma recv_pc_guard:
  assumes "tokio_ok T" "recv_pc_step T X r pc s = Some (pc', s', cs)"
  shows "recv_holds pc' = recv_holds pc \<and> locked T (rs_inner s') = locked T (rs_inner s)
    \<or> \<not> recv_holds pc \<and> \<not> locked T (rs_inner s) \<and> recv_holds pc' \<and> locked T (rs_inner s')
    \<or> recv_holds pc \<and> \<not> recv_holds pc' \<and> (locked T (rs_inner s) \<longrightarrow> \<not> locked T (rs_inner s'))"
  using assms(2)
  by (cases pc) (auto simp: recv_step_defs recv_holds_def split: recv_splits
      dest: try_lock_locked [OF assms(1)] try_lock_free unlock_free [OF assms(1)])

lemma recv_abort_guard:
  assumes "recv_abort T pc s = Some s'"
  shows "\<not> recv_holds pc \<and> s' = s \<or> recv_holds pc \<and> s' = s\<lparr>rs_inner := unlock T (rs_inner s)\<rparr>"
  using assms by (cases pc) (auto simp: recv_abort_def recv_holds_def split: recv_splits)

lemma recv_abort_obj:
  "recv_abort T pc s = Some s' \<Longrightarrow>
   rs_cancel s' = rs_cancel s \<and> rs_stop_code s' = rs_stop_code s \<and> rs_eof s' = rs_eof s"
  by (cases pc) (auto simp: recv_abort_def split: recv_splits)

definition recv_doomed :: "recv_pc \<Rightarrow> bool" where
  "recv_doomed pc = (case pc of
       V_Select op b \<Rightarrow> True
     | V_CancelLock \<Rightarrow> True
     | V_CancelHeld \<Rightarrow> True
     | V_CancelStop c \<Rightarrow> True
     | V_Drop out \<Rightarrow> out = Returned (Inl stopped_locally)
     | V_Done out \<Rightarrow> out = Returned (Inl stopped_locally)
     | V_Aborted \<Rightarrow> True
     | _ \<Rightarrow> False)"

lemma recv_pc_cancelled:
  assumes "tokio_ok T" "recv_pc_step T X r pc s = Some (pc', s', cs)" "is_cancelled T (rs_cancel s)"
  shows "is_cancelled T (rs_cancel s')"
  using assms(2,3)
  by (cases pc) (auto simp: recv_step_defs token_cancelled [OF assms(1)] split: recv_splits)

lemma recv_pc_doomed:
  assumes "recv_pc_step T X r pc s = Some (pc', s', cs)" "is_cancelled T (rs_cancel s)"
    "recv_doomed pc"
  shows "recv_doomed pc'"
  using assms by (cases pc) (auto simp: recv_step_defs recv_doomed_def split: recv_splits)

interpretation rcv: cancel_protocol "tokio_ok T" "recv_step T X" "\<lambda>s. s = recv_init T"
  "\<lambda>s i. recv_holds (rtask s i)" "rlocked T" "rcancelled T" "\<lambda>s i. recv_doomed (rtask s i)"
  for T X
proof
  show "\<not> rlocked T s \<and> \<not> recv_holds (rtask s i)" if "tokio_ok T" "s = recv_init T" for s i
    using that tokio_new [of T] by (simp add: recv_init_def recv_new_def recv_holds_def)
next
  fix e s t
  assume ok: "tokio_ok T" and st: "recv_step T X e s = Some t"
  from st show "\<exists>i. (\<forall>j. j \<noteq> i \<longrightarrow> recv_holds (rtask t j) = recv_holds (rtask s j)) \<and>
      (recv_holds (rtask t i) = recv_holds (rtask s i) \<and> rlocked T t = rlocked T s
       \<or> \<not> recv_holds (rtask s i) \<and> \<not> rlocked T s \<and> recv_holds (rtask t i) \<and> rlocked T t
       \<or> recv_holds (rtask s i) \<and> \<not> recv_holds (rtask t i) \<and> (rlocked T s \<longrightarrow> \<not> rlocked T t))"
  proof (cases rule: recv_step_cases)
    case (Spawn i m)
    then show ?thesis using recv_entry_no_guard [of m]
      by (intro exI [of _ i]) (simp add: recv_holds_def [of V_Idle])
  next
    case (Step i r pc o' cs)
    then show ?thesis using recv_pc_guard [OF ok Step(2)] by (intro exI [of _ i]) simp
  next
    case (Abort i o')
    then show ?thesis using recv_abort_guard [OF Abort(2)]
      by (intro exI [of _ i]) (auto simp: recv_holds_def [of V_Aborted] dest: unlock_free [OF ok])
  qed
next
  fix e s t
  assume ok: "tokio_ok T" and st: "recv_step T X e s = Some t" and c: "rcancelled T s"
  from st show "rcancelled T t"
    by (cases rule: recv_step_cases) (use c in \<open>auto dest: recv_pc_cancelled [OF ok] recv_abort_obj\<close>)
next
  fix e s t i
  assume st: "recv_step T X e s = Some t" and c: "rcancelled T s" "recv_doomed (rtask s i)"
  from st show "recv_doomed (rtask t i)"
    by (cases rule: recv_step_cases)
      (use c in \<open>auto simp: recv_doomed_def [of V_Idle] recv_doomed_def [of V_Aborted]
         dest: recv_pc_doomed\<close>)
qed

section \<open>The end-of-stream flag\<close>

text \<open>The calls that may still be made once the end of the stream was seen.\<close>

definition after_eof_ok :: "recv_call \<Rightarrow> bool" where
  "after_eof_ok c = (case c of
       Call_read_chunk n o' \<Rightarrow> False
     | Call_read_to_end l \<Rightarrow> False
     | Call_read_exact n \<Rightarrow> n = 0
     | _ \<Rightarrow> True)"

lemma read_fn_eof: "read_fn op True = Inr c \<Longrightarrow> after_eof_ok c"
  by (cases op) (auto simp: after_eof_ok_def Let_def word_gt_0 split: if_splits)

lemma recv_pc_eof:
  assumes "recv_pc_step T X r pc s = Some (pc', s', cs)" "rs_eof s"
  shows "rs_eof s' \<and> (\<forall>c \<in> set cs. after_eof_ok c)"
proof (cases pc)
  case (V_Run op)
  with assms show ?thesis
    by (auto simp: recv_step_defs split: recv_splits dest!: read_fn_eof)
qed (use assms in \<open>auto simp: recv_step_defs after_eof_ok_def split: recv_splits\<close>)

lemma recv_step_eof:
  assumes "recv_step T X e s = Some t" "rs_eof (robj s)"
  shows "rs_eof (robj t) \<and> (\<exists>cs. rcalls t = rcalls s @ cs \<and> (\<forall>c \<in> set cs. after_eof_ok c))"
  using assms
  by (cases rule: recv_step_cases) (auto dest: recv_pc_eof recv_abort_obj)

lemma recv_reach_eof:
  assumes "reach (recv_step T X) s t" "rs_eof (robj s)"
  shows "rs_eof (robj t) \<and> (\<exists>cs. rcalls t = rcalls s @ cs \<and> (\<forall>c \<in> set cs. after_eof_ok c))"
proof (rule reach_invariant [OF assms(1),
      where I = "\<lambda>u. rs_eof (robj u) \<and> (\<exists>cs. rcalls u = rcalls s @ cs \<and> (\<forall>c \<in> set cs. after_eof_ok c))"])
  fix u e v
  assume I: "rs_eof (robj u) \<and> (\<exists>cs. rcalls u = rcalls s @ cs \<and> (\<forall>c \<in> set cs. after_eof_ok c))"
    and st: "recv_step T X e u = Some v"
  from I obtain cs where cs: "rcalls u = rcalls s @ cs" "\<forall>c \<in> set cs. after_eof_ok c" by blast
  from recv_step_eof [OF st] I obtain ds where "rs_eof (robj v)" "rcalls v = rcalls u @ ds"
    "\<forall>c \<in> set ds. after_eof_ok c" by blast
  with cs show "rs_eof (robj v) \<and> (\<exists>cs. rcalls v = rcalls s @ cs \<and> (\<forall>c \<in> set cs. after_eof_ok c))"
    by (intro conjI exI [of _ "cs @ ds"]) auto
qed (use assms(2) in auto)

text \<open>
  A closure that returns at once at the end of the stream: the positions of its task, and its
  outcome, from the moment the flag is set.
\<close>

definition eof_bound :: "('mx, 'tok) tokio \<Rightarrow> recv_op \<Rightarrow> recv_out \<Rightarrow> recv_pc \<Rightarrow>
    ('mx, 'tok) recv_stream \<Rightarrow> bool" where
  "eof_bound T op out pc s \<longleftrightarrow> rs_eof s \<and>
     (pc \<in> {V_Select op D_Lock, V_Poll op D_Lock, V_Run op, V_Drop out, V_Done out, V_Aborted}
      \<or> is_cancelled T (rs_cancel s) \<and>
        (pc \<in> {V_CancelLock, V_CancelHeld, V_Drop (Returned (Inl stopped_locally)),
               V_Done (Returned (Inl stopped_locally))} \<or> (\<exists>c. pc = V_CancelStop c)))"

lemma eof_bound_pc_step:
  assumes "tokio_ok T" "read_fn op True = Inl out" "eof_bound T op out pc s"
    "recv_pc_step T X r pc s = Some (pc', s', cs)"
  shows "eof_bound T op out pc' s'"
proof -
  have "rs_eof s'" using recv_pc_eof [OF assms(4)] assms(3) by (simp add: eof_bound_def)
  moreover have "is_cancelled T (rs_cancel s) \<longrightarrow> is_cancelled T (rs_cancel s')"
    using recv_pc_cancelled [OF assms(1,4)] by blast
  ultimately show ?thesis
    using assms(2-4) unfolding eof_bound_def by (auto simp: recv_step_defs split: recv_splits)
qed

lemma eof_bound_step:
  assumes ok: "tokio_ok T" and rd: "read_fn op True = Inl out"
    and b: "eof_bound T op out (rtask s i) (robj s)" and st: "recv_step T X e s = Some t"
  shows "eof_bound T op out (rtask t i) (robj t)"
proof -
  have keep: "rs_eof (robj t)" "rcancelled T s \<longrightarrow> rcancelled T t"
    using recv_step_eof [OF st] rcv.cancelled_step [OF ok st] b by (auto simp: eof_bound_def)
  from st show ?thesis
  proof (cases rule: recv_step_cases)
    case (Spawn j m)
    with b have "j \<noteq> i" by (auto simp: eof_bound_def)
    with Spawn b show ?thesis by simp
  next
    case (Step j r pc o' cs)
    show ?thesis
    proof (cases "j = i")
      case True
      with Step(2) have "recv_pc_step T X r (rtask s i) (robj s) = Some (pc, o', cs)" by simp
      from eof_bound_pc_step [OF ok rd b this] True Step(3) show ?thesis by simp
    next
      case False
      with Step(3) have "rtask t i = rtask s i" by simp
      with b keep show ?thesis by (auto simp: eof_bound_def)
    qed
  next
    case (Abort j o')
    with b keep show ?thesis by (auto simp: eof_bound_def)
  qed
qed

lemma eof_bound_reach:
  assumes "tokio_ok T" "read_fn op True = Inl out" "rs_eof (robj s)" "rtask s i = V_Select op D_Lock"
    "reach (recv_step T X) s t"
  shows "eof_bound T op out (rtask t i) (robj t)"
  by (rule reach_invariant [OF assms(5), where I = "\<lambda>u. eof_bound T op out (rtask u i) (robj u)"])
    (use assms in \<open>auto simp: eof_bound_def [of T op out "V_Select op D_Lock"]
       intro: eof_bound_step\<close>)

section \<open>Stop codes\<close>

definition stop_codes :: "'x recv_event list \<Rightarrow> u32 set" where
  "stop_codes es = {c. \<exists>i. RSpawn i (M_stop c) \<in> set es} \<union>
     {c. c = 0 \<and> (\<exists>i b. RSpawn i (M_recv_aexit b) \<in> set es)}"

fun stop_call_codes :: "recv_call \<Rightarrow> u32 set" where
  "stop_call_codes (Call_stop c) = {c}"
| "stop_call_codes _ = {}"

definition rpc_codes :: "recv_pc \<Rightarrow> u32 set" where
  "rpc_codes pc = (case pc of
       H_Check c \<Rightarrow> {c} | H_Store c \<Rightarrow> {c} | H_Cancel c \<Rightarrow> {c} | H_TryLock c \<Rightarrow> {c} | H_Stop c \<Rightarrow> {c}
     | Y_Store \<Rightarrow> {0} | Y_Cancel \<Rightarrow> {0} | Y_LockStop \<Rightarrow> {0} | Y_Stop \<Rightarrow> {0}
     | Y_LoadEof \<Rightarrow> {0} | Y_LockClean \<Rightarrow> {0} | Y_StopClean \<Rightarrow> {0}
     | V_CancelStop c \<Rightarrow> {c}
     | _ \<Rightarrow> {})"

definition stop_stored :: "recv_pc \<Rightarrow> bool" where
  "stop_stored pc = (case pc of H_Cancel c \<Rightarrow> True | Y_Cancel \<Rightarrow> True | _ \<Rightarrow> False)"

definition in_stop_arm :: "recv_pc \<Rightarrow> bool" where
  "in_stop_arm pc = (case pc of V_CancelLock \<Rightarrow> True | V_CancelHeld \<Rightarrow> True | _ \<Rightarrow> False)"

definition stop_code_inv :: "('mx, 'tok) tokio \<Rightarrow> u32 set \<Rightarrow> ('mx, 'tok) recv_sys \<Rightarrow> bool" where
  "stop_code_inv T C s \<longleftrightarrow>
     (\<forall>i. rpc_codes (rtask s i) \<subseteq> C) \<and>
     (\<forall>i. stop_stored (rtask s i) \<longrightarrow> rs_stop_code (robj s) \<in> C) \<and>
     (\<forall>i. in_stop_arm (rtask s i) \<longrightarrow> rcancelled T s) \<and>
     (rcancelled T s \<longrightarrow> rs_stop_code (robj s) \<in> C) \<and>
     (\<forall>c \<in> set (rcalls s). stop_call_codes c \<subseteq> C)"

lemmas stop_defs = rpc_codes_def stop_stored_def in_stop_arm_def

lemma read_fn_no_stop: "read_fn op b = Inr c \<Longrightarrow> stop_call_codes c = {}"
  by (cases op) (auto simp: Let_def split: if_splits)

lemma recv_pc_code:
  assumes "tokio_ok T" "recv_pc_step T X r pc s = Some (pc', s', cs)"
    "rpc_codes pc \<subseteq> C" "stop_stored pc \<longrightarrow> rs_stop_code s \<in> C"
    "in_stop_arm pc \<longrightarrow> is_cancelled T (rs_cancel s)"
    "is_cancelled T (rs_cancel s) \<longrightarrow> rs_stop_code s \<in> C"
  shows "rpc_codes pc' \<subseteq> C \<and> (stop_stored pc' \<longrightarrow> rs_stop_code s' \<in> C)
    \<and> (in_stop_arm pc' \<longrightarrow> is_cancelled T (rs_cancel s'))
    \<and> (is_cancelled T (rs_cancel s') \<longrightarrow> rs_stop_code s' \<in> C)
    \<and> (rs_stop_code s \<in> C \<longrightarrow> rs_stop_code s' \<in> C)
    \<and> (\<forall>c \<in> set cs. stop_call_codes c \<subseteq> C)"
proof (cases pc)
  case (V_Run op)
  with assms show ?thesis
    by (auto simp: recv_step_defs stop_defs split: recv_splits dest!: read_fn_no_stop)
qed (use assms in \<open>auto simp: recv_step_defs stop_defs split: recv_splits\<close>)

lemma stop_code_inv_step:
  assumes ok: "tokio_ok T" and inv: "stop_code_inv T C s" and st: "recv_step T X e s = Some t"
    and sub: "stop_codes [e] \<subseteq> C"
  shows "stop_code_inv T C t"
  using st
proof (cases rule: recv_step_cases)
  case (Spawn i m)
  have "rpc_codes (recv_entry m) \<subseteq> C" "\<not> stop_stored (recv_entry m)" "\<not> in_stop_arm (recv_entry m)"
    using sub Spawn(1) by (cases m; auto simp: stop_defs stop_codes_def)+
  with Spawn inv show ?thesis by (auto simp: stop_code_inv_def)
next
  case (Step i r pc o' cs)
  from inv have "rpc_codes (rtask s i) \<subseteq> C" "stop_stored (rtask s i) \<longrightarrow> rs_stop_code (robj s) \<in> C"
    "in_stop_arm (rtask s i) \<longrightarrow> rcancelled T s" "rcancelled T s \<longrightarrow> rs_stop_code (robj s) \<in> C"
    by (auto simp: stop_code_inv_def)
  note n = recv_pc_code [OF ok Step(2) this]
  have "rcancelled T s \<longrightarrow> rcancelled T t"
    using recv_pc_cancelled [OF ok Step(2)] Step(3) by simp
  with n Step(3) inv show ?thesis by (auto simp: stop_code_inv_def)
next
  case (Abort i o')
  with inv recv_abort_obj [OF Abort(2)] show ?thesis
    by (auto simp: stop_code_inv_def stop_defs)
qed

lemma stop_code_inv_mono: "stop_code_inv T C s \<Longrightarrow> C \<subseteq> D \<Longrightarrow> stop_code_inv T D s"
  unfolding stop_code_inv_def by blast

lemma stop_code_inv_run:
  assumes "tokio_ok T" "run (recv_step T X) (recv_init T) es = Some t"
  shows "stop_code_inv T (stop_codes es) t"
  using assms(2)
proof (induction es arbitrary: t rule: rev_induct)
  case Nil
  then show ?case using tokio_new [OF assms(1)]
    by (auto simp: stop_code_inv_def recv_init_def recv_new_def stop_defs)
next
  case (snoc e es)
  then obtain u where u: "run (recv_step T X) (recv_init T) es = Some u" "recv_step T X e u = Some t"
    by (auto simp: run_append bind_eq_Some_conv elim!: run_Cons_SomeE)
  have "stop_codes (es @ [e]) = stop_codes es \<union> stop_codes [e]"
    by (auto simp: stop_codes_def)
  with snoc.IH [OF u(1)] have "stop_code_inv T (stop_codes (es @ [e])) u"
    by (auto intro: stop_code_inv_mono)
  then show ?case
    by (rule stop_code_inv_step [OF assms(1) _ u(2)]) (auto simp: stop_codes_def)
qed

section \<open>When STOP_SENDING reaches the stream\<close>

definition owes_stop :: "recv_pc \<Rightarrow> bool" where
  "owes_stop pc \<longleftrightarrow> recv_holds pc \<or> in_stop_arm pc \<or>
     (case pc of H_TryLock c \<Rightarrow> True | Y_LockStop \<Rightarrow> True | _ \<Rightarrow> False)"

definition stop_sent :: "('mx, 'tok) recv_sys \<Rightarrow> bool" where
  "stop_sent s \<longleftrightarrow> (\<exists>c. Call_stop c \<in> set (rcalls s))"

fun recv_late :: "('mx, 'tok) tokio \<Rightarrow> 'x recv_event \<Rightarrow> ('mx, 'tok) recv_sys \<Rightarrow> bool" where
  "recv_late T (RSpawn i m) s = False"
| "recv_late T (RStep i r) s =
     (rcancelled T s \<and> \<not> stop_sent s \<and> (case rtask s i of V_Drop _ \<Rightarrow> True | _ \<Rightarrow> False))"
| "recv_late T (RAbort i) s = (rcancelled T s \<and> \<not> stop_sent s \<and> owes_stop (rtask s i))"

definition recv_quiet :: "recv_pc \<Rightarrow> bool" where
  "recv_quiet pc = (case pc of V_Idle \<Rightarrow> True | V_Done r \<Rightarrow> True | V_Aborted \<Rightarrow> True | _ \<Rightarrow> False)"

lemmas owes_stop_defs = owes_stop_def recv_holds_def in_stop_arm_def

lemma recv_quiet_owes: "recv_quiet pc \<Longrightarrow> \<not> owes_stop pc"
  by (cases pc) (simp_all add: recv_quiet_def owes_stop_defs)

lemma recv_pc_owes:
  assumes "recv_pc_step T X r pc s = Some (pc', s', cs)" "is_cancelled T (rs_cancel s)"
    "owes_stop pc" "\<nexists>out. pc = V_Drop out"
  shows "owes_stop pc' \<or> (\<exists>c. cs = [Call_stop c]) \<or>
    locked T (rs_inner s) \<and> s' = s \<and> cs = [] \<and> \<not> recv_holds pc"
  using assms by (cases pc) (auto simp: recv_step_defs owes_stop_defs locked_def split: recv_splits)

lemma stop_sent_mono: "recv_step T X e s = Some t \<Longrightarrow> stop_sent s \<Longrightarrow> stop_sent t"
  using recv_step_calls [of T X e s t] by (auto simp: stop_sent_def)

lemma recv_owes_step:
  assumes ok: "tokio_ok T" and st: "recv_step T X e s = Some t" and late: "\<not> recv_late T e s"
    and c: "rcancelled T s" and n: "\<not> stop_sent t" and o: "owes_stop (rtask s j)"
  shows "owes_stop (rtask t j) \<or>
    rlocked T s \<and> \<not> recv_holds (rtask s j) \<and> (\<forall>k. recv_holds (rtask t k) = recv_holds (rtask s k))"
  using st
proof (cases rule: recv_step_cases)
  case (Spawn i m)
  with o have "j \<noteq> i" by (auto simp: owes_stop_defs)
  with Spawn o show ?thesis by simp
next
  case (Abort i o')
  have "\<not> stop_sent s" using n stop_sent_mono [OF st] by blast
  with late c o Abort(1) have "j \<noteq> i" by auto
  with Abort o show ?thesis by simp
next
  case (Step i r pc o' cs)
  show ?thesis
  proof (cases "i = j")
    case True
    have "\<not> stop_sent s" using n stop_sent_mono [OF st] by blast
    with late c Step(1) have "\<nexists>out. rtask s i = V_Drop out" by auto
    moreover have "\<forall>c. cs \<noteq> [Call_stop c]" using n Step(3) by (auto simp: stop_sent_def)
    ultimately show ?thesis
      using recv_pc_owes [OF Step(2) c] o True Step(3) by (auto simp: owes_stop_def [of pc])
  qed (use Step o in simp)
qed

lemma recv_cancel_owes:
  assumes ok: "tokio_ok T" and st: "recv_step T X e s = Some t"
    and c: "\<not> rcancelled T s" "rcancelled T t"
  shows "\<exists>i. owes_stop (rtask t i)"
  using st
proof (cases rule: recv_step_cases)
  case (Step i r pc o' cs)
  have "owes_stop pc"
    using Step(2,3) c by (cases "rtask s i") (auto simp: recv_step_defs owes_stop_defs split: recv_splits)
  with Step(3) show ?thesis by (intro exI [of _ i]) simp
qed (use c in \<open>auto dest: recv_abort_obj\<close>)

interpretation rcv: delivery_protocol "tokio_ok T" "recv_step T X" "\<lambda>s. s = recv_init T"
  "\<lambda>s i. recv_holds (rtask s i)" "rlocked T" "rcancelled T" "\<lambda>s i. owes_stop (rtask s i)"
  stop_sent "recv_late T"
  for T X
proof
  show "\<not> rcancelled T s" if "tokio_ok T" "s = recv_init T" for s
    using that tokio_new [of T] by (simp add: recv_init_def recv_new_def)
  show "owes_stop (rtask s i)" if "recv_holds (rtask s i)" for s i
    using that by (simp add: owes_stop_def)
qed (fact stop_sent_mono recv_cancel_owes recv_owes_step)+

text \<open>
  Whose fault it is. A task \<open>closes\<close> the stream when its method is a stop or an exceptional exit; the
  others are bystanders. A task is overtaken when the token is cancelled, STOP_SENDING was not sent,
  and a bystander that has not raised releases the guard, or asyncio drops a future that owes the
  stop. A task that closes the stream and one that raises release the guard only after they have
  sent STOP_SENDING.
\<close>

fun recv_closes :: "recv_method \<Rightarrow> bool" where
  "recv_closes (M_stop c) = True"
| "recv_closes (M_recv_aexit has_exception) = has_exception"
| "recv_closes _ = False"

definition recv_bystander :: "'x recv_event list \<Rightarrow> nat \<Rightarrow> bool" where
  "recv_bystander es i \<longleftrightarrow> (\<exists>m. RSpawn i m \<in> set es \<and> \<not> recv_closes m)"

fun recv_overtaken ::
  "('mx, 'tok) tokio \<Rightarrow> (nat \<Rightarrow> bool) \<Rightarrow> 'x recv_event \<Rightarrow> ('mx, 'tok) recv_sys \<Rightarrow> bool" where
  "recv_overtaken T B (RSpawn i m) s = False"
| "recv_overtaken T B (RStep i r) s = (rcancelled T s \<and> \<not> stop_sent s \<and> B i \<and>
     (case rtask s i of V_Drop res \<Rightarrow> res \<noteq> Returned (Inl stopped_locally) | _ \<Rightarrow> False))"
| "recv_overtaken T B (RAbort i) s = (rcancelled T s \<and> \<not> stop_sent s \<and> owes_stop (rtask s i))"

definition recv_timely_step ::
  "('mx, 'tok) tokio \<Rightarrow> 'x ext \<Rightarrow> (nat \<Rightarrow> bool) \<Rightarrow> 'x recv_event \<Rightarrow> ('mx, 'tok) recv_sys \<Rightarrow>
   ('mx, 'tok) recv_sys option" where
  "recv_timely_step T X B e s = (if recv_overtaken T B e s then None else recv_step T X e s)"

definition recv_sender :: "recv_pc \<Rightarrow> bool" where
  "recv_sender pc = (case pc of
       V_Idle \<Rightarrow> True | H_Check c \<Rightarrow> True | H_Store c \<Rightarrow> True | H_Cancel c \<Rightarrow> True | H_TryLock c \<Rightarrow> True
     | H_Stop c \<Rightarrow> True | Y_Store \<Rightarrow> True | Y_Cancel \<Rightarrow> True | Y_LockStop \<Rightarrow> True | Y_Stop \<Rightarrow> True
     | V_Drop r \<Rightarrow> True | V_Done r \<Rightarrow> True | V_Aborted \<Rightarrow> True
     | _ \<Rightarrow> False)"

definition recv_sender_inv :: "(nat \<Rightarrow> bool) \<Rightarrow> ('mx, 'tok) recv_sys \<Rightarrow> bool" where
  "recv_sender_inv B s \<longleftrightarrow> (\<forall>i. (\<not> B i \<longrightarrow> recv_sender (rtask s i)) \<and>
     (\<forall>res. rtask s i = V_Drop res \<and> (\<not> B i \<or> res = Returned (Inl stopped_locally)) \<longrightarrow> stop_sent s) \<and>
     rtask s i \<noteq> V_EofStore (Returned (Inl stopped_locally)))"

lemma read_fn_not_local: "read_fn op eof \<noteq> Inl (Returned (Inl stopped_locally))"
  by (cases op) (auto simp: stopped_locally_def stop_async_iteration_def new_err_def Let_def
      dest: arg_cong [of _ _ exc])

lemma read_fn_ret_not_local: "read_fn_ret X op r \<noteq> Some (Returned (Inl stopped_locally), fin)"
proof -
  note not_local = stream_error_not_local [of "''stream stopped locally''" X, folded stopped_locally_def]
  have "stopped_locally \<noteq> stop_async_iteration"
    by (simp add: stopped_locally_def stop_async_iteration_def new_err_def)
  moreover have "map_read_to_end_error X e l \<noteq> stopped_locally" for e l
    by (cases e) (auto simp: stream_error_not_local stopped_locally_def Let_def set_attrs_def dest: arg_cong [of _ _ exc])
  moreover have "map_read_exact_error X e n buf \<noteq> Some stopped_locally" for e n buf
    by (cases e) (auto simp: stream_error_not_local stopped_locally_def dest: arg_cong [of _ _ exc])
  ultimately show ?thesis using not_local [THEN not_sym]
    by (cases "(X, op, r)" rule: read_fn_ret.cases)
      (auto simp: not_local Let_def map_err_eq_Inl split: if_splits sum.splits option.splits)
qed

lemma recv_pc_sender:
  assumes "recv_pc_step T X r pc s = Some (pc', s', cs)" "pc \<noteq> V_EofStore (Returned (Inl stopped_locally))"
  shows "pc' \<noteq> V_EofStore (Returned (Inl stopped_locally)) \<and> (recv_sender pc \<longrightarrow> recv_sender pc') \<and>
    (\<forall>res. pc' = V_Drop res \<and> (recv_sender pc \<or> res = Returned (Inl stopped_locally)) \<longrightarrow> (\<exists>c. cs = [Call_stop c]))"
  using assms read_fn_ret_not_local [of X] read_fn_not_local
  by (cases pc) (auto simp: recv_step_defs recv_sender_def split: recv_splits)

lemma recv_entry_sender: "recv_closes m \<Longrightarrow> recv_sender (recv_entry m)" "\<exists>res. recv_entry m = V_Drop res \<Longrightarrow> False"
  "\<exists>res. recv_entry m = V_EofStore res \<Longrightarrow> False"
  by (cases m; simp add: recv_sender_def split: if_splits)+

lemma recv_sender_step:
  assumes "recv_sender_inv B s" "recv_step T X e s = Some t" "\<forall>i m. e = RSpawn i m \<and> \<not> B i \<longrightarrow> recv_closes m"
  shows "recv_sender_inv B t"
  using assms(2)
proof (cases rule: recv_step_cases)
  case (Spawn i m)
  with assms(1,3) recv_entry_sender [of m] show ?thesis
    by (auto simp: recv_sender_inv_def stop_sent_def)
next
  case (Step i r pc o' cs)
  have mono: "stop_sent s \<Longrightarrow> stop_sent t" by (rule stop_sent_mono [OF assms(2)])
  from assms(1) have "rtask s i \<noteq> V_EofStore (Returned (Inl stopped_locally))" by (simp add: recv_sender_inv_def)
  from recv_pc_sender [OF Step(2) this] assms(1) Step(3) mono show ?thesis
    by (fastforce simp: recv_sender_inv_def stop_sent_def)
next
  case (Abort i o')
  with assms(1) show ?thesis by (auto simp: recv_sender_inv_def stop_sent_def recv_sender_def)
qed

lemma recv_timely_run:
  assumes "run (recv_timely_step T X B) s es = Some t" "recv_sender_inv B s"
    "\<forall>i m. RSpawn i m \<in> set es \<and> \<not> B i \<longrightarrow> recv_closes m"
  shows "reach (rcv.timely T X) s t"
  using assms
proof (induction es arbitrary: s)
  case Nil
  then show ?case by (auto intro: reach.intros)
next
  case (Cons e es)
  then obtain u where u: "recv_timely_step T X B e s = Some u" "run (recv_timely_step T X B) u es = Some t"
    by (auto elim: run_Cons_SomeE)
  then have n: "\<not> recv_overtaken T B e s" and st: "recv_step T X e s = Some u"
    by (auto simp: recv_timely_step_def split: if_splits)
  have "\<not> recv_late T e s"
    using n Cons.prems(2) by (cases e) (auto simp: recv_sender_inv_def split: recv_pc.splits)
  with st have "rcv.timely T X e s = Some u" by (simp add: rcv.timely_def)
  moreover have "reach (rcv.timely T X) u t"
    using recv_sender_step [OF Cons.prems(2) st] Cons.prems(3) by (intro Cons.IH [OF u(2)]) auto
  ultimately show ?case by (rule reach_trans [OF reach_step [OF reach_refl]])
qed

lemma recv_init_sender: "recv_sender_inv B (recv_init T)"
  by (simp add: recv_sender_inv_def recv_init_def recv_sender_def)

section \<open>After a stop every operation can finish\<close>

definition recv_rank :: "recv_pc \<Rightarrow> nat" where
  "recv_rank pc = (case pc of
       V_Idle \<Rightarrow> 0 | V_Done r \<Rightarrow> 0 | V_Aborted \<Rightarrow> 0
     | V_Drop r \<Rightarrow> 1 | V_EofStore r \<Rightarrow> 2 | V_CancelStop c \<Rightarrow> 2 | V_CancelHeld \<Rightarrow> 3 | V_CancelLock \<Rightarrow> 4
     | V_Select op b \<Rightarrow> 5 | V_Run op \<Rightarrow> 6 | V_Poll op b \<Rightarrow> 7
     | H_Stop c \<Rightarrow> 2 | H_TryLock c \<Rightarrow> 3 | H_Cancel c \<Rightarrow> 4 | H_Store c \<Rightarrow> 5 | H_Check c \<Rightarrow> 6
     | Y_Stop \<Rightarrow> 2 | Y_LockStop \<Rightarrow> 3 | Y_Cancel \<Rightarrow> 4 | Y_Store \<Rightarrow> 5
     | Y_StopClean \<Rightarrow> 2 | Y_LockClean \<Rightarrow> 3 | Y_LoadEof \<Rightarrow> 4)"

definition recv_work :: "('mx, 'tok) recv_sys \<Rightarrow> nat" where
  "recv_work s = pool_rank (\<lambda>i. recv_rank (rtask s i))"

lemma recv_pc_rank:
  assumes "recv_pc_step T X r pc s = Some (pc', s', cs)" "is_cancelled T (rs_cancel s)"
  shows "recv_rank pc' < recv_rank pc \<or>
    locked T (rs_inner s) \<and> \<not> recv_holds pc \<and> pc' = pc \<and> s' = s \<and> cs = []"
  using assms
  by (cases pc) (auto simp: recv_step_defs recv_rank_def recv_holds_def locked_def split: recv_splits)

lemma recv_pc_enabled:
  assumes "\<not> recv_quiet pc" "is_cancelled T (rs_cancel s)" "recv_holds pc \<or> \<not> locked T (rs_inner s)"
  shows "\<exists>pc' s' cs. recv_pc_step T X None pc s = Some (pc', s', cs) \<and> recv_rank pc' < recv_rank pc"
proof (cases pc)
  case (V_Poll op b)
  with assms show ?thesis
    by (cases b) (auto simp: recv_step_defs recv_rank_def recv_holds_def locked_def)
qed (use assms in \<open>auto simp: recv_step_defs recv_rank_def recv_holds_def recv_quiet_def locked_def
       split: recv_splits\<close>)

lemma recv_finite_step:
  assumes "recv_step T X e s = Some t" "finite {i. rtask s i \<noteq> V_Idle}"
  shows "finite {i. rtask t i \<noteq> V_Idle}"
proof -
  from assms(1) have "\<exists>i. {j. rtask t j \<noteq> V_Idle} \<subseteq> insert i {j. rtask s j \<noteq> V_Idle}"
    by (cases rule: recv_step_cases) (auto split: if_splits)
  with assms(2) show ?thesis by (auto intro: finite_subset)
qed

lemma recv_work_step:
  assumes "finite {i. rtask s i \<noteq> V_Idle}" "rtask t = (rtask s)(i := pc)"
    "recv_rank pc < recv_rank (rtask s i)"
  shows "recv_work t < recv_work s"
proof -
  have "finite {i. recv_rank (rtask s i) \<noteq> 0}"
    by (rule finite_subset [OF _ assms(1)]) (auto simp: recv_rank_def)
  moreover have "(\<lambda>j. recv_rank (rtask t j)) = (\<lambda>j. recv_rank (rtask s j))(i := recv_rank pc)"
    using assms(2) by auto
  ultimately show ?thesis unfolding recv_work_def
    using pool_rank_update_less assms(3) by simp
qed

definition recv_alone :: "'x recv_event \<Rightarrow> bool" where
  "recv_alone e \<longleftrightarrow> (\<exists>i. e = RStep i None)"

interpretation rcv: progress_protocol "tokio_ok T" "recv_step T X" "\<lambda>s. s = recv_init T"
  "\<lambda>s i. recv_holds (rtask s i)" "rlocked T" "rcancelled T" "\<lambda>s i. recv_doomed (rtask s i)"
  "\<lambda>s i. recv_quiet (rtask s i)" recv_work "\<lambda>s. finite {i. rtask s i \<noteq> V_Idle}" recv_alone
  for T X
proof
  show "finite {i. rtask s i \<noteq> V_Idle}" if "s = recv_init T" for s
    using that by (simp add: recv_init_def)
  show "finite {i. rtask t i \<noteq> V_Idle}"
    if "recv_step T X e s = Some t" "finite {i. rtask s i \<noteq> V_Idle}" for e s t
    using that by (rule recv_finite_step)
  show "\<not> recv_quiet (rtask s i)" if "recv_holds (rtask s i)" for s i
    using that recv_quiet_owes by (auto simp: owes_stop_def)
next
  fix s i
  assume fin: "finite {i. rtask s i \<noteq> V_Idle}" and c: "rcancelled T s"
    and b: "\<not> recv_quiet (rtask s i)" "recv_holds (rtask s i) \<or> \<not> rlocked T s"
  from recv_pc_enabled [OF b(1) c b(2), of X] obtain pc o' cs where
    st: "recv_pc_step T X None (rtask s i) (robj s) = Some (pc, o', cs)"
    and rk: "recv_rank pc < recv_rank (rtask s i)" by blast
  let ?t = "\<lparr>robj = o', rtask = (rtask s)(i := pc), rcalls = rcalls s @ cs\<rparr>"
  have "recv_step T X (RStep i None) s = Some ?t" using st by simp
  then show "\<exists>e t. recv_alone e \<and> recv_step T X e s = Some t \<and> recv_work t < recv_work s"
    using recv_work_step [OF fin _ rk, of ?t] by (fastforce simp: recv_alone_def)
qed

text \<open>No task has more than its rank of steps left, except attempts to take a lock another task has.\<close>

lemma recv_abort_rank:
  "recv_abort T pc s = Some s' \<Longrightarrow> recv_rank V_Aborted < recv_rank pc"
  by (cases pc) (auto simp: recv_abort_def recv_rank_def split: recv_splits)

lemma recv_rank_le: "recv_rank pc \<le> 7"
  by (cases pc) (simp_all add: recv_rank_def)

lemma recv_rank_0: "recv_rank pc = 0 \<longleftrightarrow> recv_quiet pc"
  by (cases pc) (simp_all add: recv_rank_def recv_quiet_def)

lemma recv_work_le: "recv_work s \<le> 7 * card {i. \<not> recv_quiet (rtask s i)}"
  using pool_rank_le [of "\<lambda>i. recv_rank (rtask s i)" 7] by (simp add: recv_work_def recv_rank_le recv_rank_0)

definition recv_starts :: "'x recv_event \<Rightarrow> bool" where
  "recv_starts e \<longleftrightarrow> (\<exists>i m. e = RSpawn i m)"

interpretation rcv: bounded_protocol "tokio_ok T" "recv_step T X" "\<lambda>s. s = recv_init T"
  "\<lambda>s i. recv_holds (rtask s i)" "rlocked T" "rcancelled T" "\<lambda>s i. recv_doomed (rtask s i)"
  "\<lambda>s i. recv_quiet (rtask s i)" recv_work "\<lambda>s. finite {i. rtask s i \<noteq> V_Idle}" recv_alone recv_starts
  for T X
proof
  fix s e t
  assume fin: "finite {i. rtask s i \<noteq> V_Idle}" and c: "rcancelled T s" and n: "\<not> recv_starts e"
    and st: "recv_step T X e s = Some t"
  from st show "recv_work t < recv_work s \<or> t = s"
  proof (cases rule: recv_step_cases)
    case (Spawn i m)
    with n show ?thesis by (simp add: recv_starts_def)
  next
    case (Step i r pc o' cs)
    from recv_pc_rank [OF Step(2) c] show ?thesis
      using recv_work_step [OF fin, of t i pc] Step(3) by auto
  next
    case (Abort i o')
    then show ?thesis
      using recv_work_step [OF fin, of t i V_Aborted] recv_abort_rank [OF Abort(2)] by simp
  qed
qed

section \<open>Panics\<close>

text \<open>
  Two expressions of the closures can panic: the allocation of a buffer larger than
  \<open>isize_MAX\<close>, and the slice of that buffer at the number of bytes \<^verbatim>\<open>read_exact\<close> reports.
\<close>

fun recv_sane :: "'x recv_event \<Rightarrow> bool" where
  "recv_sane (RSpawn i (M_readexactly n)) = (unat n \<le> isize_MAX)"
| "recv_sane (RStep i (Some (Resp_exact buf (Inl (ReadExactError_FinishedEarly k))))) =
     (unat k \<le> length buf)"
| "recv_sane _ = True"

definition calm :: "recv_pc \<Rightarrow> bool" where
  "calm pc = (case pc of
       V_Select op b \<Rightarrow> (\<forall>n. op = Op_readexactly n \<longrightarrow> unat n \<le> isize_MAX)
     | V_Poll op b \<Rightarrow> (\<forall>n. op = Op_readexactly n \<longrightarrow> unat n \<le> isize_MAX)
     | V_Run op \<Rightarrow> (\<forall>n. op = Op_readexactly n \<longrightarrow> unat n \<le> isize_MAX)
     | V_EofStore out \<Rightarrow> out \<noteq> Panicked
     | V_Drop out \<Rightarrow> out \<noteq> Panicked
     | V_Done out \<Rightarrow> out \<noteq> Panicked
     | _ \<Rightarrow> True)"

lemma read_fn_calm:
  "read_fn op eof = Inl out \<Longrightarrow> \<forall>n. op = Op_readexactly n \<longrightarrow> unat n \<le> isize_MAX \<Longrightarrow> out \<noteq> Panicked"
  by (cases op) (auto simp: Let_def split: if_splits)

lemma read_fn_ret_calm:
  assumes "read_fn_ret X op a = Some ob" "recv_sane (RStep i (Some a))"
  shows "fst ob \<noteq> Panicked"
  using assms
  by (cases "(X, op, a)" rule: read_fn_ret.cases)
    (auto simp: Let_def slice_to_def split: if_splits sum.splits option.splits
      read_exact_error.splits elim!: map_read_exact_error.elims)

lemma recv_pc_calm:
  assumes "recv_pc_step T X r pc s = Some (pc', s', cs)" "calm pc" "recv_sane (RStep i r)"
  shows "calm pc'"
proof (cases pc)
  case (V_Run op)
  with assms show ?thesis
    by (auto simp: recv_step_defs calm_def split: recv_splits
        dest: read_fn_calm read_fn_ret_calm)
next
  case (V_Poll op b)
  with assms show ?thesis
    by (auto simp: recv_step_defs calm_def split: recv_splits dest: read_fn_ret_calm)
qed (use assms in \<open>auto simp: recv_step_defs calm_def split: recv_splits\<close>)

lemma recv_calm_step:
  assumes "recv_step T X e s = Some t" "recv_sane e" "\<forall>i. calm (rtask s i)"
  shows "\<forall>i. calm (rtask t i)"
  using assms(1)
proof (cases rule: recv_step_cases)
  case (Spawn i m)
  with assms(2) have "calm (recv_entry m)" by (cases m) (auto simp: calm_def)
  with Spawn assms(3) show ?thesis by simp
next
  case (Step i r pc o' cs)
  with assms(2,3) recv_pc_calm [OF Step(2), of i] show ?thesis by simp
next
  case (Abort i o')
  with assms(3) show ?thesis by (simp add: calm_def [of V_Aborted])
qed

lemma recv_calm_run:
  "run (recv_step T X) s es = Some t \<Longrightarrow> \<forall>e \<in> set es. recv_sane e \<Longrightarrow> \<forall>i. calm (rtask s i) \<Longrightarrow>
   \<forall>i. calm (rtask t i)"
  by (induction es arbitrary: s) (auto elim!: run_Cons_SomeE dest: recv_calm_step)

end
