(* ===== verification/Recv_Refinement.thy ===== *)
theory Recv_Refinement
  imports Recv_Safety Seq_Refinement
begin

text \<open>
  The receive stream as an object with atomic methods. The abstract stream is open or closed, with
  the code it was closed with, and may have reached its end.
\<close>

section \<open>The specification\<close>

record recv_abs =
  ra_closed :: bool
  ra_code :: u32
  ra_eof :: bool

fun recv_method_op :: "recv_method \<Rightarrow> recv_op option" where
  "recv_method_op M_anext = Some Op_anext"
| "recv_method_op (M_read n limit) = Some (Op_read n limit)"
| "recv_method_op (M_readexactly n) = Some (Op_readexactly n)"
| "recv_method_op M_recv_wait_closed = Some Op_recv_wait_closed"
| "recv_method_op _ = None"

definition recv_op_spec ::
  "'x ext \<Rightarrow> recv_op \<Rightarrow> recv_abs \<Rightarrow> recv_out \<Rightarrow> recv_abs \<Rightarrow> recv_call list \<Rightarrow> bool" where
  "recv_op_spec X op a out a' cs \<longleftrightarrow>
     (if ra_closed a
      then out = Returned (Inl (new_err StreamClosedLocally ''stream stopped locally'')) \<and> a' = a \<and>
        cs = [Call_stop (ra_code a)]
      else (case read_fn op (ra_eof a) of
          Inl out' \<Rightarrow> out = out' \<and> a' = a \<and> cs = []
        | Inr call \<Rightarrow> \<exists>ans fin. read_fn_ret X op ans = Some (out, fin) \<and>
            a' = a\<lparr>ra_eof := ra_eof a \<or> fin\<rparr> \<and> cs = [call]))"

fun recv_spec ::
  "'x ext \<Rightarrow> recv_method \<Rightarrow> recv_abs \<Rightarrow> recv_out \<Rightarrow> recv_abs \<Rightarrow> recv_call list \<Rightarrow> bool" where
  "recv_spec X (M_stop code) a out a' cs =
     (if ra_closed a
      then out = Returned (Inl (new_err StreamClosedLocally ''stream already closed'')) \<and> a' = a \<and> cs = []
      else out = Returned (Inr PyNone) \<and> a' = a\<lparr>ra_closed := True, ra_code := code\<rparr> \<and>
        cs = [Call_stop code])"
| "recv_spec X (M_recv_aexit has_exception) a out a' cs =
     (out = Returned (Inr PyNone) \<and>
      (if has_exception then a' = a\<lparr>ra_closed := True, ra_code := 0\<rparr> \<and> cs = [Call_stop 0]
       else a' = a \<and> cs = (if ra_eof a then [] else [Call_stop 0])))"
| "recv_spec X M_anext a out a' cs = recv_op_spec X Op_anext a out a' cs"
| "recv_spec X (M_read n limit) a out a' cs = recv_op_spec X (Op_read n limit) a out a' cs"
| "recv_spec X (M_readexactly n) a out a' cs = recv_op_spec X (Op_readexactly n) a out a' cs"
| "recv_spec X M_recv_wait_closed a out a' cs = recv_op_spec X Op_recv_wait_closed a out a' cs"

section \<open>The abstraction\<close>

definition robj_abs :: "('mx, 'tok) tokio \<Rightarrow> ('mx, 'tok) recv_stream \<Rightarrow> recv_abs" where
  "robj_abs T s = \<lparr>ra_closed = is_cancelled T (rs_cancel s), ra_code = rs_stop_code s, ra_eof = rs_eof s\<rparr>"

definition recv_abs_of :: "('mx, 'tok) tokio \<Rightarrow> ('mx, 'tok) recv_sys \<Rightarrow> recv_abs" where
  "recv_abs_of T s = robj_abs T (robj s)"

definition recv_result :: "('mx, 'tok) recv_sys \<Rightarrow> nat \<Rightarrow> recv_out option" where
  "recv_result s i = (case rtask s i of V_Done r \<Rightarrow> Some r | _ \<Rightarrow> None)"

definition recv_mine :: "nat \<Rightarrow> 'x recv_event \<Rightarrow> bool" where
  "recv_mine i e \<longleftrightarrow> (\<exists>r. e = RStep i r)"

definition recv_rest :: "('mx, 'tok) tokio \<Rightarrow> ('mx, 'tok) recv_sys \<Rightarrow> bool" where
  "recv_rest T s \<longleftrightarrow> \<not> rlocked T s \<and> finite {i. rtask s i \<noteq> V_Idle}"

section \<open>A task alone\<close>

definition recv_progress ::
  "'x ext \<Rightarrow> recv_method \<Rightarrow> recv_abs \<Rightarrow> recv_pc \<Rightarrow> recv_abs \<Rightarrow> recv_call list \<Rightarrow> bool" where
  "recv_progress X m a pc b cs = (case pc of
       V_Select op body \<Rightarrow> recv_method_op m = Some op \<and> b = a \<and>
         (case body of
            D_Lock \<Rightarrow> cs = []
          | D_Call \<Rightarrow> \<not> ra_closed a \<and> (\<exists>call. read_fn op (ra_eof a) = Inr call \<and> cs = [call]))
     | V_Poll op body \<Rightarrow> recv_method_op m = Some op \<and> \<not> ra_closed a \<and> b = a \<and>
         (case body of
            D_Lock \<Rightarrow> cs = []
          | D_Call \<Rightarrow> (\<exists>call. read_fn op (ra_eof a) = Inr call \<and> cs = [call]))
     | V_Run op \<Rightarrow> recv_method_op m = Some op \<and> \<not> ra_closed a \<and> b = a \<and> cs = []
     | V_EofStore out \<Rightarrow> recv_spec X m a out (b\<lparr>ra_eof := True\<rparr>) cs
     | V_CancelLock \<Rightarrow> (\<exists>op. recv_method_op m = Some op) \<and> ra_closed a \<and> b = a \<and> cs = []
     | V_CancelHeld \<Rightarrow> (\<exists>op. recv_method_op m = Some op) \<and> ra_closed a \<and> b = a \<and> cs = []
     | V_CancelStop c \<Rightarrow> (\<exists>op. recv_method_op m = Some op) \<and> ra_closed a \<and> b = a \<and> cs = [] \<and> c = ra_code a
     | V_Drop out \<Rightarrow> recv_spec X m a out b cs
     | V_Done out \<Rightarrow> recv_spec X m a out b cs
     | H_Check c \<Rightarrow> m = M_stop c \<and> b = a \<and> cs = []
     | H_Store c \<Rightarrow> m = M_stop c \<and> \<not> ra_closed a \<and> b = a \<and> cs = []
     | H_Cancel c \<Rightarrow> m = M_stop c \<and> \<not> ra_closed a \<and> b = a\<lparr>ra_code := c\<rparr> \<and> cs = []
     | H_TryLock c \<Rightarrow> m = M_stop c \<and> \<not> ra_closed a \<and> b = a\<lparr>ra_closed := True, ra_code := c\<rparr> \<and> cs = []
     | H_Stop c \<Rightarrow> m = M_stop c \<and> \<not> ra_closed a \<and> b = a\<lparr>ra_closed := True, ra_code := c\<rparr> \<and> cs = []
     | Y_Store \<Rightarrow> m = M_recv_aexit True \<and> b = a \<and> cs = []
     | Y_Cancel \<Rightarrow> m = M_recv_aexit True \<and> b = a\<lparr>ra_code := 0\<rparr> \<and> cs = []
     | Y_LockStop \<Rightarrow> m = M_recv_aexit True \<and> b = a\<lparr>ra_closed := True, ra_code := 0\<rparr> \<and> cs = []
     | Y_Stop \<Rightarrow> m = M_recv_aexit True \<and> b = a\<lparr>ra_closed := True, ra_code := 0\<rparr> \<and> cs = []
     | Y_LoadEof \<Rightarrow> m = M_recv_aexit False \<and> b = a \<and> cs = []
     | Y_LockClean \<Rightarrow> m = M_recv_aexit False \<and> \<not> ra_eof a \<and> b = a \<and> cs = []
     | Y_StopClean \<Rightarrow> m = M_recv_aexit False \<and> \<not> ra_eof a \<and> b = a \<and> cs = []
     | _ \<Rightarrow> False)"

lemma recv_spec_op: "recv_method_op m = Some op \<Longrightarrow> recv_spec X m a r a' cs = recv_op_spec X op a r a' cs"
  by (cases m) auto

lemma recv_progress_entry: "recv_progress X m a (recv_entry m) a []"
  by (cases m) (simp_all add: recv_progress_def)

lemma robj_abs_update [simp]:
  "robj_abs T (s\<lparr>rs_inner := m\<rparr>) = robj_abs T s"
  "robj_abs T (s\<lparr>rs_stop_code := c\<rparr>) = (robj_abs T s)\<lparr>ra_code := c\<rparr>"
  "robj_abs T (s\<lparr>rs_eof := e\<rparr>) = (robj_abs T s)\<lparr>ra_eof := e\<rparr>"
  by (simp_all add: robj_abs_def)

lemma robj_abs_cancel [simp]:
  "tokio_ok T \<Longrightarrow> robj_abs T (s\<lparr>rs_cancel := token_cancel T t\<rparr>) = (robj_abs T s)\<lparr>ra_closed := True\<rparr>"
  by (simp add: robj_abs_def token_cancelled)

lemma robj_abs_sel [simp]:
  "ra_closed (robj_abs T s) = is_cancelled T (rs_cancel s)" "ra_code (robj_abs T s) = rs_stop_code s"
  "ra_eof (robj_abs T s) = rs_eof s" "(robj_abs T s)\<lparr>ra_eof := rs_eof s\<rparr> = robj_abs T s"
  by (simp_all add: robj_abs_def)

lemma recv_op_specI:
  "ra_closed a \<Longrightarrow> recv_op_spec X op a (Returned (Inl stopped_locally)) a [Call_stop (ra_code a)]"
  "\<not> ra_closed a \<Longrightarrow> read_fn op (ra_eof a) = Inl out \<Longrightarrow> recv_op_spec X op a out a []"
  "\<not> ra_closed a \<Longrightarrow> read_fn op (ra_eof a) = Inr call \<Longrightarrow> read_fn_ret X op ans = Some (out, False) \<Longrightarrow>
   recv_op_spec X op a out a [call]"
  "\<not> ra_closed a \<Longrightarrow> read_fn op (ra_eof a) = Inr call \<Longrightarrow> read_fn_ret X op ans = Some (out, True) \<Longrightarrow>
   recv_op_spec X op a out (a\<lparr>ra_eof := True\<rparr>) [call]"
proof -
  show "recv_op_spec X op a out a [call]" if "\<not> ra_closed a" "read_fn op (ra_eof a) = Inr call"
    "read_fn_ret X op ans = Some (out, False)"
    using that unfolding recv_op_spec_def by (simp, intro exI [of _ ans] exI [of _ False]) simp
  show "recv_op_spec X op a out (a\<lparr>ra_eof := True\<rparr>) [call]" if "\<not> ra_closed a"
    "read_fn op (ra_eof a) = Inr call" "read_fn_ret X op ans = Some (out, True)"
    using that unfolding recv_op_spec_def by (simp, intro exI [of _ ans] exI [of _ True]) simp
qed (simp_all add: recv_op_spec_def stopped_locally_def)

lemmas robj_specI = recv_op_specI [of "robj_abs T s" for T s, simplified]

lemma recv_progress_step:
  assumes ok: "tokio_ok T" and pr: "recv_progress X m a pc (robj_abs T s) cs"
    and lk: "locked T (rs_inner s) \<longleftrightarrow> recv_holds pc"
    and st: "recv_pc_step T X r pc s = Some (pc', s', ds)"
  shows "recv_progress X m a pc' (robj_abs T s') (cs @ ds)"
proof -
  have free: "try_lock T (rs_inner s) \<noteq> None" if "\<not> recv_holds pc" using lk that by (simp add: locked_def)
  note defs = recv_step_defs recv_progress_def recv_holds_def
  show ?thesis
    using pr st free
    by (cases pc) (auto simp: defs recv_spec_op recv_already_closed_def ok
        intro: robj_specI split: recv_splits)
qed

section \<open>The refinement\<close>

definition recv_solo ::
  "('mx, 'tok) tokio \<Rightarrow> 'x ext \<Rightarrow> recv_method \<Rightarrow> recv_abs \<Rightarrow> recv_call list \<Rightarrow>
   ('mx, 'tok) recv_sys \<Rightarrow> nat \<Rightarrow> bool" where
  "recv_solo T X m a c s i \<longleftrightarrow> finite {i. rtask s i \<noteq> V_Idle} \<and>
     (rlocked T s \<longleftrightarrow> recv_holds (rtask s i)) \<and>
     (\<exists>cs. rcalls s = c @ cs \<and> recv_progress X m a (rtask s i) (recv_abs_of T s) cs)"

lemma recv_solo_step:
  assumes ok: "tokio_ok T" and so: "recv_solo T X m a c s i" and e: "recv_mine i e"
    and st: "recv_step T X e s = Some t"
  shows "recv_solo T X m a c t i"
proof -
  from e st obtain r pc o' ds where
    st': "recv_pc_step T X r (rtask s i) (robj s) = Some (pc, o', ds)"
    and t: "t = \<lparr>robj = o', rtask = (rtask s)(i := pc), rcalls = rcalls s @ ds\<rparr>"
    by (auto simp: recv_mine_def)
  from so obtain cs where cs: "rcalls s = c @ cs" "rlocked T s \<longleftrightarrow> recv_holds (rtask s i)"
    "recv_progress X m a (rtask s i) (robj_abs T (robj s)) cs" "finite {i. rtask s i \<noteq> V_Idle}"
    by (auto simp: recv_solo_def recv_abs_of_def)
  from recv_progress_step [OF ok cs(3,2) st'] recv_pc_guard [OF ok st'] cs
    recv_finite_step [OF st cs(4)] show ?thesis
    unfolding recv_solo_def t by (auto simp: recv_abs_of_def)
qed

lemma recv_op_complete:
  assumes ok: "tokio_ok T" and at: "rtask s i = V_Select op D_Lock" and free: "\<not> rlocked T s"
    and sp: "recv_op_spec X op (recv_abs_of T s) r a' cs"
  shows "\<exists>as t. run (recv_step T X) s (map (RStep i) as) = Some t \<and>
    rtask t = (rtask s)(i := V_Done r) \<and> \<not> rlocked T t \<and> recv_abs_of T t = a' \<and> rcalls t = rcalls s @ cs"
proof -
  from free obtain m where m: "try_lock T (rs_inner (robj s)) = Some m"
    by (rule not_locked_obtain)
  have u: "\<not> locked T (unlock T m)"
    using try_lock_locked [OF ok m] by (rule unlock_free [OF ok])
  note simps = at m u recv_step_defs recv_op_spec_def recv_abs_of_def stopped_locally_def
  consider (c) "rcancelled T s" | (l) out where "\<not> rcancelled T s" "read_fn op (rs_eof (robj s)) = Inl out"
    | (r) call where "\<not> rcancelled T s" "read_fn op (rs_eof (robj s)) = Inr call"
    by (cases "read_fn op (rs_eof (robj s))") auto
  then show ?thesis
  proof cases
    case c
    with sp show ?thesis by (intro exI [of _ "[None, None, None, None, None]"]) (simp add: simps)
  next
    case l
    with sp show ?thesis by (intro exI [of _ "[None, None, None, None]"]) (simp add: simps)
  next
    case (r call)
    with sp obtain ans fin where ans: "read_fn_ret X op ans = Some (r, fin)"
      "a' = (recv_abs_of T s)\<lparr>ra_eof := rs_eof (robj s) \<or> fin\<rparr>" "cs = [call]"
      by (auto simp: recv_op_spec_def recv_abs_of_def)
    with r show ?thesis
      by (intro exI [of _ "[None, None, Some ans, None] @ (if fin then [None] else [])"])
        (auto simp: simps)
  qed
qed

lemma recv_method_complete:
  assumes ok: "tokio_ok T" and at: "rtask s i = recv_entry m" and free: "\<not> rlocked T s"
    and sp: "recv_spec X m (recv_abs_of T s) r a' cs"
  shows "\<exists>as t. run (recv_step T X) s (map (RStep i) as) = Some t \<and>
    rtask t = (rtask s)(i := V_Done r) \<and> \<not> rlocked T t \<and> recv_abs_of T t = a' \<and> rcalls t = rcalls s @ cs"
proof (cases "recv_method_op m")
  case (Some op)
  then have "recv_entry m = V_Select op D_Lock" by (cases m) auto
  with at have "rtask s i = V_Select op D_Lock" by simp
  then show ?thesis using free sp [unfolded recv_spec_op [OF Some]] by (rule recv_op_complete [OF ok])
next
  case None
  from free obtain g where g: "try_lock T (rs_inner (robj s)) = Some g"
    by (rule not_locked_obtain)
  have u: "\<not> locked T (unlock T g)"
    using try_lock_locked [OF ok g] by (rule unlock_free [OF ok])
  note simps = at g u free recv_step_defs recv_abs_of_def recv_already_closed_def token_cancelled [OF ok]
  show ?thesis
  proof (cases m)
    case (M_stop c)
    with sp show ?thesis
      by (intro exI [of _ "if rcancelled T s then [None] else [None, None, None, None, None, None]"])
        (auto simp: simps ok)
  next
    case (M_recv_aexit b)
    with sp show ?thesis
      by (intro exI [of _ "if b then [None, None, None, None, None]
          else if rs_eof (robj s) then [None] else [None, None, None, None]"])
        (auto simp: simps ok)
  qed (use None in auto)
qed

interpretation rcv: solo_refinement "tokio_ok T" "recv_step T X" RSpawn recv_mine recv_result
  "recv_rest T" "recv_abs_of T" rcalls "recv_spec X" "recv_solo T X" for T X
proof
  fix s i m t
  assume ok: "tokio_ok T" and r: "recv_rest T s" and st: "recv_step T X (RSpawn i m) s = Some t"
  then have t: "t = s\<lparr>rtask := (rtask s)(i := recv_entry m)\<rparr>" by (simp split: if_splits)
  from r recv_entry_no_guard [of m] recv_progress_entry [of X m "recv_abs_of T s"]
    recv_finite_step [OF st]
  show "recv_solo T X m (recv_abs_of T s) (rcalls s) t i"
    by (simp add: recv_solo_def recv_rest_def t recv_abs_of_def)
next
  fix m a c s i r
  assume "recv_solo T X m a c s i" "recv_result s i = Some r"
  then show "recv_rest T s \<and> (\<exists>cs. rcalls s = c @ cs \<and> recv_spec X m a r (recv_abs_of T s) cs)"
    by (auto simp: recv_solo_def recv_rest_def recv_result_def recv_progress_def recv_holds_def
        split: recv_pc.splits)
next
  fix s m r a' cs
  assume ok: "tokio_ok T" and rest: "recv_rest T s" and sp: "recv_spec X m (recv_abs_of T s) r a' cs"
  from rest have fin: "finite {i. rtask s i \<noteq> V_Idle}" by (simp add: recv_rest_def)
  then obtain i where i: "rtask s i = V_Idle" using ex_new_if_finite [of "{i. rtask s i \<noteq> V_Idle}"] by auto
  let ?s = "s\<lparr>rtask := (rtask s)(i := recv_entry m)\<rparr>"
  have "recv_spec X m (recv_abs_of T ?s) r a' cs" using sp by (simp add: recv_abs_of_def)
  with recv_method_complete [OF ok _ _ this, of i] rest obtain as t where
    t: "run (recv_step T X) ?s (map (RStep i) as) = Some t" "rtask t = (rtask ?s)(i := V_Done r)"
      "\<not> rlocked T t" "recv_abs_of T t = a'" "rcalls t = rcalls s @ cs"
    by (auto simp: recv_rest_def)
  have "finite {j. rtask t j \<noteq> V_Idle}"
    by (rule finite_subset [OF _ finite.insertI [OF fin, of i]]) (auto simp: t(2))
  with t i show "\<exists>i es t. run (recv_step T X) s (RSpawn i m # es) = Some t \<and> (\<forall>e \<in> set es. recv_mine i e) \<and>
      recv_result t i = Some r \<and> recv_rest T t \<and> recv_abs_of T t = a' \<and> rcalls t = rcalls s @ cs"
    by (intro exI [of _ i] exI [of _ "map (RStep i) as"] exI [of _ t])
      (auto simp: recv_mine_def recv_result_def recv_rest_def)
qed (rule recv_solo_step)

end
