(* ===== verification/Recv_Properties.thy ===== *)
theory Recv_Properties
  imports Recv_Safety Recv_Refinement
begin

text \<open>
  The properties of \<^verbatim>\<open>src/recv_stream.rs\<close>, over every interleaving of the tasks on one stream, with
  their instances on concrete runs.
\<close>

lemmas recv_eval =
  recv_step_defs recv_abort_def recv_init_def recv_new_def recv_holds_def Let_def

section \<open>Methods that do not overlap\<close>

text \<open>
  C4: methods that run one after the other behave like the atomic methods of the abstract stream, from
  every state with the lock free. Each result, each call on the QUIC stream and each change of
  state is one the specification allows, and every behaviour the specification allows can happen:
  an open stream answers from the end-of-stream flag or makes the method's own call and records
  the end; a closed one raises StreamClosedLocally and repeats STOP_SENDING; a clean exit sends
  STOP_SENDING exactly when the end was not reached.
\<close>

theorem recv_refines_spec:
  assumes "tokio_ok T" "recv_rest T s"
  shows "(\<forall>t. sequential (recv_step T X) RSpawn recv_mine recv_result s k t \<longrightarrow>
      (\<exists>cs. rcalls t = rcalls s @ cs \<and>
        spec_trace (recv_spec X) (recv_abs_of T s) k (recv_abs_of T t) cs)) \<and>
    (\<forall>a' cs. spec_trace (recv_spec X) (recv_abs_of T s) k a' cs \<longrightarrow>
      (\<exists>t. sequential (recv_step T X) RSpawn recv_mine recv_result s k t \<and>
        recv_abs_of T t = a' \<and> rcalls t = rcalls s @ cs))"
  using rcv.sequential_sound [OF _ assms] rcv.sequential_complete [OF _ assms refl] by blast

theorem recv_refines_spec_witness:
  "\<exists>t. sequential (recv_step tokio_bits ext_ref) RSpawn recv_mine recv_result (recv_init tokio_bits)
     [(M_read (- 1) None, Returned (Inr (PyBytes [1, 2]))), (M_anext, Returned (Inl stop_async_iteration)),
      (M_recv_aexit False, Returned (Inr PyNone))] t \<and>
   rcalls t = [Call_read_to_end usize_MAX]"
proof -
  let ?s = "recv_init tokio_bits"
  let ?a = "(recv_abs_of tokio_bits ?s)\<lparr>ra_eof := True\<rparr>"
  have rest: "recv_rest tokio_bits ?s" by (simp add: recv_rest_def recv_init_def recv_new_def)
  have a: "\<not> ra_closed (recv_abs_of tokio_bits ?s)" "\<not> ra_eof (recv_abs_of tokio_bits ?s)"
    by (simp_all add: recv_abs_of_def recv_init_def recv_new_def)
  have r: "recv_spec ext_ref (M_read (- 1) None) (recv_abs_of tokio_bits ?s)
      (Returned (Inr (PyBytes [1, 2]))) ?a [Call_read_to_end usize_MAX]"
    unfolding recv_spec.simps using a by (intro recv_op_specI(4) [where ans = "Resp_to_end (Inr [1, 2])"]) simp_all
  have n: "recv_spec ext_ref M_anext ?a (Returned (Inl stop_async_iteration)) ?a []"
    unfolding recv_spec.simps using a by (intro recv_op_specI(2)) simp_all
  have x: "recv_spec ext_ref (M_recv_aexit False) ?a (Returned (Inr PyNone)) ?a []" by simp
  note tr = trace_Cons [of "recv_spec ext_ref"]
  have "spec_trace (recv_spec ext_ref) (recv_abs_of tokio_bits ?s)
     [(M_read (- 1) None, Returned (Inr (PyBytes [1, 2]))), (M_anext, Returned (Inl stop_async_iteration)),
      (M_recv_aexit False, Returned (Inr PyNone))] ?a ([Call_read_to_end usize_MAX] @ [] @ [] @ [])"
    by (rule tr [OF r tr [OF n tr [OF x trace_Nil]]])
  with recv_refines_spec [OF tokio_bits_ok rest, of ext_ref] obtain t where
    "sequential (recv_step tokio_bits ext_ref) RSpawn recv_mine recv_result ?s
     [(M_read (- 1) None, Returned (Inr (PyBytes [1, 2]))), (M_anext, Returned (Inl stop_async_iteration)),
      (M_recv_aexit False, Returned (Inr PyNone))] t"
    "rcalls t = rcalls ?s @ [Call_read_to_end usize_MAX] @ [] @ [] @ []" by blast
  then show ?thesis by (intro exI [of _ t]) (simp add: recv_init_def)
qed

section \<open>Runs without contention\<close>

text \<open>
  C31: \<^verbatim>\<open>readexactly(n)\<close> returns \<open>n\<close> bytes or raises. When the stream ends after \<open>k \<le> n\<close> bytes, the
  exception is StreamIncompleteReadError whose \<^verbatim>\<open>expected\<close> is \<open>n\<close> and whose \<^verbatim>\<open>partial\<close> holds exactly
  the \<open>k\<close> bytes read, and the end of the stream is recorded; no other answer records it.
\<close>

theorem recv_readexactly_result:
  assumes "length buf = unat n" "unat k \<le> unat n"
  shows "read_fn_ret X (Op_readexactly n) (Resp_exact buf (Inr ())) =
      Some (Returned (Inr (PyBytes buf)), False) \<and>
    (\<exists>err.
      read_fn_ret X (Op_readexactly n) (Resp_exact buf (Inl (ReadExactError_FinishedEarly k))) =
        Some (Returned (Inl err), True) \<and>
      exc err = StreamIncompleteReadError \<and> attr ''expected'' err = Some (PyInt (uint n)) \<and>
      attr ''partial'' err = Some (PyBytes (take (unat k) buf)) \<and>
      length (take (unat k) buf) = unat k) \<and>
    read_fn_ret X (Op_readexactly n) (Resp_exact buf (Inl (ReadExactError_ReadError re))) =
      Some (Returned (Inl (map_read_error X re)), False)"
  using assms by (simp add: slice_to_def)

theorem recv_readexactly_result_witness:
  "\<exists>err. read_fn_ret ext_ref (Op_readexactly 4)
       (Resp_exact [9, 8, 0, 0] (Inl (ReadExactError_FinishedEarly 2))) =
     Some (Returned (Inl err), True) \<and> attr ''partial'' err = Some (PyBytes [9, 8])"
  using recv_readexactly_result [of "[9, 8, 0, 0]" 4 2 ext_ref] by auto

section \<open>Every interleaving\<close>

text \<open>
  C9: mutual exclusion. In every reachable state at most one task has the guard of the QUIC
  stream, and the mutex is locked exactly while some task has it; every call on the QUIC stream
  is made by a task that has the guard.
\<close>

theorem recv_guard_exclusive:
  assumes "tokio_ok T" "reach (recv_step T X) (recv_init T) s"
  shows "(\<forall>i j. recv_holds (rtask s i) \<and> recv_holds (rtask s j) \<longrightarrow> i = j) \<and>
    (rlocked T s \<longleftrightarrow> (\<exists>i. recv_holds (rtask s i))) \<and>
    (\<forall>i r t. recv_step T X (RStep i r) s = Some t \<and> rcalls t \<noteq> rcalls s \<longrightarrow> recv_holds (rtask s i))"
proof (intro conjI allI impI)
  show "i = j" if "recv_holds (rtask s i) \<and> recv_holds (rtask s j)" for i j
    using rcv.mutual_exclusion [OF assms(1) refl assms(2)] that by blast
  show "rlocked T s \<longleftrightarrow> (\<exists>i. recv_holds (rtask s i))"
    by (rule rcv.locked_iff_held [OF assms(1) refl assms(2)])
  show "recv_holds (rtask s i)"
    if "recv_step T X (RStep i r) s = Some t \<and> rcalls t \<noteq> rcalls s" for i r t
    using that
    by (cases "rtask s i") (auto simp: recv_step_defs recv_holds_def split: recv_splits)
qed

theorem recv_guard_exclusive_witness:
  "\<exists>s. run (recv_step tokio_bits ext_ref) (recv_init tokio_bits)
     [RSpawn 0 M_anext, RSpawn 1 M_recv_wait_closed, RStep 0 None, RStep 0 None] = Some s \<and>
   recv_holds (rtask s 0) \<and> (\<forall>j. recv_holds (rtask s j) \<longrightarrow> j = 0) \<and> rlocked tokio_bits s"
proof -
  let ?es = "[RSpawn 0 M_anext, RSpawn 1 M_recv_wait_closed, RStep 0 None, RStep 0 None]"
  have "\<exists>s. run (recv_step tokio_bits ext_ref) (recv_init tokio_bits) ?es = Some s
    \<and> recv_holds (rtask s 0)" by (simp add: recv_eval)
  then obtain s where s: "run (recv_step tokio_bits ext_ref) (recv_init tokio_bits) ?es = Some s"
    and h: "recv_holds (rtask s 0)" by blast
  show ?thesis
    using recv_guard_exclusive [OF tokio_bits_ok run_reach [OF s]] s h by blast
qed

text \<open>
  C14: the end of the stream is final. Once the flag is set it stays set, and no task asks the QUIC
  stream for data again: the only reads that can still be made are those of zero bytes.
\<close>

theorem recv_eof_final:
  assumes "reach (recv_step T X) s t" "rs_eof (robj s)"
  shows "rs_eof (robj t) \<and> (\<exists>cs. rcalls t = rcalls s @ cs \<and>
    (\<forall>n b. Call_read_chunk n b \<notin> set cs) \<and> (\<forall>l. Call_read_to_end l \<notin> set cs) \<and>
    (\<forall>n. n \<noteq> 0 \<longrightarrow> Call_read_exact n \<notin> set cs))"
proof -
  from recv_reach_eof [OF assms] obtain cs where
    "rs_eof (robj t)" "rcalls t = rcalls s @ cs" "\<forall>c \<in> set cs. after_eof_ok c" by blast
  then show ?thesis by (intro conjI exI [of _ cs]) (force simp: after_eof_ok_def)+
qed

theorem recv_eof_final_witness:
  "\<exists>t. run (recv_step tokio_bits ext_ref)
     \<lparr>robj = \<lparr>rs_inner = False, rs_cancel = False, rs_stop_code = 0, rs_eof = True\<rparr>,
      rtask = (\<lambda>_. V_Idle), rcalls = []\<rparr>
     ([RSpawn 0 M_anext] @ replicate 4 (RStep 0 None)) = Some t \<and> rs_eof (robj t) \<and>
   (\<forall>n b. Call_read_chunk n b \<notin> set (rcalls t))"
proof -
  let ?s = "\<lparr>robj = \<lparr>rs_inner = False, rs_cancel = False, rs_stop_code = 0, rs_eof = True\<rparr>,
      rtask = (\<lambda>_. V_Idle), rcalls = []\<rparr>"
  have "\<exists>t. run (recv_step tokio_bits ext_ref) ?s
      ([RSpawn 0 M_anext] @ replicate 4 (RStep 0 None)) = Some t"
    by (simp add: recv_eval numeral_eq_Suc)
  then obtain t where t: "run (recv_step tokio_bits ext_ref) ?s
      ([RSpawn 0 M_anext] @ replicate 4 (RStep 0 None)) = Some t" ..
  from recv_eof_final [OF run_reach [OF t]] t show ?thesis by auto
qed

text \<open>
  C17: reading at the end of the stream. An operation started when the flag is set has one of two
  outcomes when it returns: the end-of-stream answer of its kind (StopAsyncIteration for
  iteration, empty bytes for \<^verbatim>\<open>read\<close>, StreamIncompleteReadError with no bytes for \<^verbatim>\<open>readexactly\<close>
  of a positive number), or StreamClosedLocally when the stream was stopped.
\<close>

theorem recv_at_eof:
  assumes "tokio_ok T" "rs_eof (robj s)" "rtask s i = V_Select op D_Lock"
    "reach (recv_step T X) s t" "rtask t i = V_Done out"
    "op \<noteq> Op_recv_wait_closed" "op \<noteq> Op_readexactly 0"
  shows "out = Returned (case op of
        Op_anext \<Rightarrow> Inl stop_async_iteration
      | Op_read n limit \<Rightarrow> Inr (PyBytes [])
      | Op_readexactly n \<Rightarrow> Inl (new_stream_incomplete_read_error n [])) \<or>
    rcancelled T t \<and> out = Returned (Inl (new_err StreamClosedLocally ''stream stopped locally''))"
proof -
  have "read_fn op True = Inl (Returned (case op of
        Op_anext \<Rightarrow> Inl stop_async_iteration
      | Op_read n limit \<Rightarrow> Inr (PyBytes [])
      | Op_readexactly n \<Rightarrow> Inl (new_stream_incomplete_read_error n [])))"
    using assms(6,7) by (cases op) (auto simp: word_gt_0)
  from eof_bound_reach [OF assms(1) this assms(2-4)] assms(5) show ?thesis
    by (auto simp: eof_bound_def stopped_locally_def)
qed

theorem recv_at_eof_witness:
  "\<exists>t out. run (recv_step tokio_bits ext_ref)
     \<lparr>robj = \<lparr>rs_inner = False, rs_cancel = False, rs_stop_code = 0, rs_eof = True\<rparr>,
      rtask = (\<lambda>_. V_Idle)(0 := V_Select (Op_read 100 None) D_Lock), rcalls = []\<rparr>
     (replicate 4 (RStep 0 None)) = Some t \<and> rtask t 0 = V_Done out \<and>
   out = Returned (Inr (PyBytes []))"
proof -
  let ?s = "\<lparr>robj = \<lparr>rs_inner = False, rs_cancel = False, rs_stop_code = 0, rs_eof = True\<rparr>,
      rtask = (\<lambda>_. V_Idle)(0 := V_Select (Op_read 100 None) D_Lock), rcalls = []\<rparr>"
  have "\<exists>t out. run (recv_step tokio_bits ext_ref) ?s (replicate 4 (RStep 0 None)) = Some t \<and>
      rtask t 0 = V_Done out \<and> \<not> rcancelled tokio_bits t"
    by (simp add: recv_eval numeral_eq_Suc)
  then obtain t out where t: "run (recv_step tokio_bits ext_ref) ?s (replicate 4 (RStep 0 None)) = Some t"
    "rtask t 0 = V_Done out" "\<not> rcancelled tokio_bits t" by blast
  from recv_at_eof [OF tokio_bits_ok _ _ run_reach [OF t(1)] t(2), of "Op_read 100 None"] t
  show ?thesis by auto
qed

section \<open>Stopping\<close>

text \<open>
  C2: an operation that is at the head of its \<^verbatim>\<open>select!\<close> when the token is cancelled (it was started
  after the stop, or was pending) never completes in any other way: when it returns, it raises
  StreamClosedLocally, and no data is delivered after the stop.
\<close>

theorem recv_stop_interrupts:
  assumes "tokio_ok T" "rcancelled T s" "rtask s i = V_Select op b"
    "reach (recv_step T X) s t" "rtask t i = V_Done out"
  shows "out = Returned (Inl (new_err StreamClosedLocally ''stream stopped locally''))"
  using rcv.doomed_reach [OF assms(1,4,2), of i] assms(3,5)
  by (simp add: recv_doomed_def stopped_locally_def)

theorem recv_stop_interrupts_witness:
  "\<exists>s t out. run (recv_step tokio_bits ext_ref) (recv_init tokio_bits)
     ([RSpawn 0 M_anext] @ replicate 3 (RStep 0 None) @ [RSpawn 1 (M_stop 9)] @
      replicate 4 (RStep 1 None)) = Some s \<and>
   run (recv_step tokio_bits ext_ref) s (replicate 5 (RStep 0 None)) = Some t \<and>
   rtask t 0 = V_Done out \<and>
   out = Returned (Inl (new_err StreamClosedLocally ''stream stopped locally''))"
proof -
  let ?es = "[RSpawn 0 M_anext] @ replicate 3 (RStep 0 None) @ [RSpawn 1 (M_stop 9)] @
      replicate 4 (RStep 1 None)"
  have "\<exists>s. run (recv_step tokio_bits ext_ref) (recv_init tokio_bits) ?es = Some s \<and>
    rcancelled tokio_bits s \<and> rtask s 0 = V_Select Op_anext D_Call \<and>
    (\<exists>t out. run (recv_step tokio_bits ext_ref) s (replicate 5 (RStep 0 None)) = Some t \<and>
       rtask t 0 = V_Done out)"
    by (simp add: recv_eval numeral_eq_Suc)
  then obtain s t out where
      s: "run (recv_step tokio_bits ext_ref) (recv_init tokio_bits) ?es = Some s"
    and c: "rcancelled tokio_bits s" "rtask s 0 = V_Select Op_anext D_Call"
    and t: "run (recv_step tokio_bits ext_ref) s (replicate 5 (RStep 0 None)) = Some t"
      "rtask t 0 = V_Done out"
    by blast
  show ?thesis
    using s t recv_stop_interrupts [OF tokio_bits_ok c run_reach [OF t(1)] t(2)] by blast
qed

text \<open>
  C33: every STOP_SENDING carries a code that was asked for: one given to \<^verbatim>\<open>stop\<close>, or 0 when an
  \<^verbatim>\<open>async with\<close> block was left.
\<close>

theorem recv_stop_code_requested:
  assumes "tokio_ok T" "run (recv_step T X) (recv_init T) es = Some t"
    "Call_stop c \<in> set (rcalls t)"
  shows "(\<exists>i. RSpawn i (M_stop c) \<in> set es) \<or> c = 0 \<and> (\<exists>i b. RSpawn i (M_recv_aexit b) \<in> set es)"
  using stop_code_inv_run [OF assms(1,2)] assms(3)
  by (force simp: stop_code_inv_def stop_codes_def)

theorem recv_stop_code_requested_witness:
  "\<exists>t. run (recv_step tokio_bits ext_ref) (recv_init tokio_bits)
     ([RSpawn 4 (M_stop 42)] @ replicate 6 (RStep 4 None)) = Some t \<and>
   Call_stop 42 \<in> set (rcalls t) \<and>
   (\<exists>i. RSpawn i (M_stop 42) \<in> set ([RSpawn 4 (M_stop 42)] @ replicate 6 (RStep 4 None :: nat recv_event)))"
proof -
  let ?es = "[RSpawn 4 (M_stop 42)] @ replicate 6 (RStep 4 None) :: nat recv_event list"
  have "\<exists>t. run (recv_step tokio_bits ext_ref) (recv_init tokio_bits) ?es = Some t \<and>
    Call_stop 42 \<in> set (rcalls t)" by (simp add: recv_eval numeral_eq_Suc)
  then obtain t where "run (recv_step tokio_bits ext_ref) (recv_init tokio_bits) ?es = Some t"
    "Call_stop 42 \<in> set (rcalls t)" by blast
  with recv_stop_code_requested [OF tokio_bits_ok this] show ?thesis by auto
qed

text \<open>
  C11: a stop is not forgotten. In a run where no task is overtaken (no read or clean exit that had the
  guard finishes, and no future that owes the stop is dropped, between the cancellation and the
  stop), once the token is cancelled and every task is done, STOP_SENDING was sent: by the stop or
  exceptional exit itself, or by the operation it interrupted.
\<close>

theorem recv_stop_delivered:
  assumes "tokio_ok T" "run (recv_timely_step T X (recv_bystander es)) (recv_init T) es = Some t"
    "rcancelled T t" "\<forall>i. recv_quiet (rtask t i)"
  shows "\<exists>c. Call_stop c \<in> set (rcalls t)"
proof -
  have "reach (rcv.timely T X) (recv_init T) t"
    by (rule recv_timely_run [OF assms(2) recv_init_sender]) (auto simp: recv_bystander_def)
  then have "stop_sent t"
    by (rule rcv.delivered [OF assms(1) refl _ assms(3)]) (use assms(4) recv_quiet_owes in auto)
  then show ?thesis by (simp add: stop_sent_def)
qed

theorem recv_stop_delivered_witness:
  "\<exists>t. run (recv_timely_step tokio_bits ext_ref (\<lambda>i. i = 0)) (recv_init tokio_bits)
     ([RSpawn 0 M_anext] @ replicate 3 (RStep 0 None) @ [RSpawn 1 (M_stop 9)] @
      replicate 4 (RStep 1 None) @ replicate 5 (RStep 0 None)) = Some t \<and>
   (\<exists>c. Call_stop c \<in> set (rcalls t))"
proof -
  let ?es = "[RSpawn 0 M_anext] @ replicate 3 (RStep 0 None) @ [RSpawn 1 (M_stop 9)] @
      replicate 4 (RStep 1 None) @ replicate 5 (RStep 0 None) :: nat recv_event list"
  have B: "recv_bystander ?es = (\<lambda>i. i = 0)" by (intro ext) (auto simp: recv_bystander_def)
  have "\<exists>t. run (recv_timely_step tokio_bits ext_ref (\<lambda>i. i = 0)) (recv_init tokio_bits) ?es = Some t \<and>
    rcancelled tokio_bits t \<and> (\<forall>i. recv_quiet (rtask t i))"
    by (simp add: recv_eval numeral_eq_Suc recv_timely_step_def stop_sent_def recv_quiet_def)
  then obtain t where
    t: "run (recv_timely_step tokio_bits ext_ref (\<lambda>i. i = 0)) (recv_init tokio_bits) ?es = Some t"
    "rcancelled tokio_bits t" "\<forall>i. recv_quiet (rtask t i)" by blast
  from recv_stop_delivered [OF tokio_bits_ok t(1) [folded B] t(2,3)] t(1) show ?thesis by blast
qed

text \<open>
  C13: without that condition it can be forgotten, by a single read and an uninterrupted stop. There
  is a run of two tasks, an iteration and a \<^verbatim>\<open>stop(code)\<close> whose steps nothing separates: the iteration
  has the guard and has passed its cancellation check, the stop finds the lock held and returns
  normally, and the read then completes with data in the same poll. Every task is done, both methods
  succeeded, the token is cancelled, and STOP_SENDING was never sent.
\<close>

theorem recv_stop_lost:
  assumes ok: "tokio_ok T"
  shows "\<exists>es\<^sub>1 es\<^sub>2 t. run (recv_step T X) (recv_init T)
      (es\<^sub>1 @ (RSpawn 1 (M_stop code) # replicate 4 (RStep 1 None)) @ es\<^sub>2) = Some t \<and>
    RSpawn 0 M_anext \<in> set es\<^sub>1 \<and>
    (\<forall>e \<in> set (es\<^sub>1 @ es\<^sub>2). e = RSpawn 0 M_anext \<or> (\<exists>r. e = RStep 0 r)) \<and>
    rtask t 1 = V_Done (Returned (Inr PyNone)) \<and>
    rtask t 0 = V_Done (Returned (Inr (PyBytes data))) \<and> (\<forall>i. recv_quiet (rtask t i)) \<and>
    rcancelled T t \<and> (\<forall>c. Call_stop c \<notin> set (rcalls t))"
proof -
  let ?es1 = "[RSpawn 0 M_anext, RStep 0 None, RStep 0 None]"
  let ?es2 = "[RStep 0 (Some (Resp_chunk (Inr (Some data)))), RStep 0 None]"
  obtain m where m: "try_lock T (mutex_new T) = Some m"
    using tokio_new [OF ok] by (auto elim: not_locked_obtain)
  have m': "try_lock T m = None" using try_lock_locked [OF ok m] by (simp add: locked_def)
  have "\<exists>t. run (recv_step T X) (recv_init T)
      (?es1 @ (RSpawn 1 (M_stop code) # replicate 4 (RStep 1 None)) @ ?es2) = Some t \<and>
    rtask t 1 = V_Done (Returned (Inr PyNone)) \<and> rtask t 0 = V_Done (Returned (Inr (PyBytes data))) \<and>
    (\<forall>i. recv_quiet (rtask t i)) \<and> rcancelled T t \<and> (\<forall>c. Call_stop c \<notin> set (rcalls t))"
    using tokio_new [OF ok] token_cancelled [OF ok]
    by (simp add: recv_eval m m' recv_quiet_def numeral_eq_Suc)
  then show ?thesis by (elim exE, intro exI [of _ ?es1] exI [of _ ?es2] exI) auto
qed

theorem recv_stop_lost_witness:
  "\<exists>es\<^sub>1 es\<^sub>2 t. run (recv_step tokio_bits ext_ref) (recv_init tokio_bits)
      (es\<^sub>1 @ (RSpawn 1 (M_stop 42) # replicate 4 (RStep 1 None)) @ es\<^sub>2) = Some t \<and>
    rtask t 1 = V_Done (Returned (Inr PyNone)) \<and> (\<forall>c. Call_stop c \<notin> set (rcalls t))"
  using recv_stop_lost [OF tokio_bits_ok, of ext_ref 42 "[1]"] by blast

text \<open>
  C24: nothing hangs after a stop. From every reachable state with the token cancelled, all tasks can
  run to completion without any answer from the peer.
\<close>

theorem recv_cancelled_finishes:
  assumes "tokio_ok T" "reach (recv_step T X) (recv_init T) s" "rcancelled T s"
  shows "\<exists>es t. run (recv_step T X) s es = Some t \<and> (\<forall>e \<in> set es. \<exists>i. e = RStep i None) \<and>
    (\<forall>i. recv_quiet (rtask t i))"
  using rcv.finishes [OF assms(1) refl assms(2,3)] by (simp add: recv_alone_def)

theorem recv_cancelled_finishes_witness:
  "\<exists>s es t. run (recv_step tokio_bits ext_ref) (recv_init tokio_bits)
     ([RSpawn 0 M_anext] @ replicate 3 (RStep 0 None) @ [RSpawn 1 (M_stop 9)] @
      replicate 4 (RStep 1 None)) = Some s \<and> \<not> recv_quiet (rtask s 0) \<and>
   run (recv_step tokio_bits ext_ref) s es = Some t \<and> (\<forall>i. recv_quiet (rtask t i))"
proof -
  let ?es = "[RSpawn 0 M_anext] @ replicate 3 (RStep 0 None) @ [RSpawn 1 (M_stop 9)] @
      replicate 4 (RStep 1 None)"
  have "\<exists>s. run (recv_step tokio_bits ext_ref) (recv_init tokio_bits) ?es = Some s \<and>
    rcancelled tokio_bits s \<and> \<not> recv_quiet (rtask s 0)"
    by (simp add: recv_eval numeral_eq_Suc recv_quiet_def)
  then obtain s where s: "run (recv_step tokio_bits ext_ref) (recv_init tokio_bits) ?es = Some s"
    "rcancelled tokio_bits s" "\<not> recv_quiet (rtask s 0)" by blast
  with recv_cancelled_finishes [OF tokio_bits_ok run_reach [OF s(1)] s(2)] show ?thesis by blast
qed

section \<open>Panics\<close>

text \<open>
  C34: no operation panics, in any interleaving, as long as \<^verbatim>\<open>readexactly\<close> is called with at most
  \<open>isize_MAX\<close> bytes and \<^verbatim>\<open>read_exact\<close> never reports more bytes than the buffer it was given has.
\<close>

theorem recv_no_panic:
  assumes "run (recv_step T X) (recv_init T) es = Some t" "\<forall>e \<in> set es. recv_sane e"
  shows "rtask t i \<noteq> V_Done Panicked"
proof -
  have "\<forall>i. calm (rtask (recv_init T) i)" by (simp add: recv_init_def calm_def)
  from recv_calm_run [OF assms this] have "calm (rtask t i)" ..
  then show ?thesis by (auto simp: calm_def)
qed

theorem recv_no_panic_witness:
  "\<exists>t out. run (recv_step tokio_bits ext_ref) (recv_init tokio_bits)
     ([RSpawn 0 (M_readexactly 3), RStep 0 None, RStep 0 None,
       RStep 0 (Some (Resp_exact [1, 2, 0] (Inl (ReadExactError_FinishedEarly 2)))),
       RStep 0 None, RStep 0 None]) = Some t \<and>
   rtask t 0 = V_Done out \<and> out \<noteq> Panicked"
proof -
  let ?es = "[RSpawn 0 (M_readexactly 3), RStep 0 None, RStep 0 None,
       RStep 0 (Some (Resp_exact [1, 2, 0] (Inl (ReadExactError_FinishedEarly 2)))),
       RStep 0 None, RStep 0 None]"
  have "\<exists>t out. run (recv_step tokio_bits ext_ref) (recv_init tokio_bits) ?es = Some t \<and>
    rtask t 0 = V_Done out"
    by (simp add: recv_eval isize_MAX_def slice_to_def)
  then obtain t out where t: "run (recv_step tokio_bits ext_ref) (recv_init tokio_bits) ?es = Some t"
    "rtask t 0 = V_Done out" by blast
  have "\<forall>e \<in> set ?es. recv_sane e" by (simp add: isize_MAX_def)
  from recv_no_panic [OF t(1) this, of 0] t show ?thesis by auto
qed

text \<open>
  C16: a stream comes to rest after a stop. From every reachable state with the token cancelled, a run in
  which no method is started changes the state at most 7 times for each task that is not done,
  whatever the schedule, the answers of the peer and the futures asyncio drops; the events not
  counted change nothing, as a failed attempt to take the lock does. A run that no task can take
  further without the peer has every task done.
\<close>

theorem recv_cancelled_terminates:
  assumes "tokio_ok T" "reach (recv_step T X) (recv_init T) s" "rcancelled T s"
    "run (recv_step T X) s es = Some t" "\<forall>e \<in> set es. \<forall>i m. e \<noteq> RSpawn i m"
  shows "changes (recv_step T X) s es \<le> 7 * card {i. \<not> recv_quiet (rtask s i)} \<and>
    ((\<forall>e u. (\<exists>i. e = RStep i None) \<and> recv_step T X e t = Some u \<longrightarrow> u = t) \<longrightarrow>
      (\<forall>i. recv_quiet (rtask t i)))"
proof (intro conjI impI allI)
  have "finite {i. rtask s i \<noteq> V_Idle}" using rcv.fin_reach [OF _ assms(2)] by blast
  with rcv.bounded [OF assms(1) _ assms(3,4)] assms(5) recv_work_le [of s]
  show "changes (recv_step T X) s es \<le> 7 * card {i. \<not> recv_quiet (rtask s i)}"
    by (fastforce simp: recv_starts_def)
  have "reach (recv_step T X) (recv_init T) t" using assms(2) run_reach [OF assms(4)] by (rule reach_trans)
  then show "recv_quiet (rtask t i)"
    if "\<forall>e u. (\<exists>i. e = RStep i None) \<and> recv_step T X e t = Some u \<longrightarrow> u = t" for i
    using rcv.stuck_quiet [OF assms(1) _ _ rcv.cancelled_run [OF assms(1,3,4)]] that
    unfolding recv_alone_def by blast
qed

theorem recv_cancelled_terminates_witness:
  "\<exists>s t. run (recv_step tokio_bits ext_ref) (recv_init tokio_bits)
     ([RSpawn 0 M_anext] @ replicate 2 (RStep 0 None) @ [RSpawn 1 (M_stop 9)] @ replicate 4 (RStep 1 None)) = Some s \<and>
   run (recv_step tokio_bits ext_ref) s [RStep 0 None, RStep 0 None, RStep 0 None] = Some t \<and> \<not> recv_quiet (rtask s 0) \<and>
   changes (recv_step tokio_bits ext_ref) s [RStep 0 None, RStep 0 None, RStep 0 None] \<le>
     7 * card {i. \<not> recv_quiet (rtask s i)}"
proof -
  let ?es = "[RSpawn 0 M_anext] @ replicate 2 (RStep 0 None) @ [RSpawn 1 (M_stop 9)] @ replicate 4 (RStep 1 None)"
  let ?fs = "[RStep 0 None, RStep 0 None, RStep 0 None]"
  have "\<exists>s t. run (recv_step tokio_bits ext_ref) (recv_init tokio_bits) ?es = Some s \<and>
    run (recv_step tokio_bits ext_ref) s ?fs = Some t \<and> rcancelled tokio_bits s \<and> \<not> recv_quiet (rtask s 0)"
    by (simp add: recv_eval numeral_eq_Suc recv_quiet_def)
  then obtain s t where s: "run (recv_step tokio_bits ext_ref) (recv_init tokio_bits) ?es = Some s"
    and t: "run (recv_step tokio_bits ext_ref) s ?fs = Some t"
    and c: "rcancelled tokio_bits s" "\<not> recv_quiet (rtask s 0)" by blast
  have "\<forall>e \<in> set ?fs. \<forall>i m. e \<noteq> RSpawn i m" by simp
  from recv_cancelled_terminates [OF tokio_bits_ok run_reach [OF s] c(1) t this] s t c
  show ?thesis by blast
qed

end
