(* ===== verification/Utf8_Encode.thy ===== *)
theory Utf8_Encode
  imports Utf8_Lossy
begin

text \<open>
  The scanner of \<^verbatim>\<open>String::from_utf8_lossy\<close> against the definition of UTF-8 (RFC 3629): the byte strings
  it takes as valid are exactly the encodings of sequences of Unicode scalar values.
\<close>

section \<open>The encoding\<close>

definition scalar_value :: "nat \<Rightarrow> bool" where
  "scalar_value c \<longleftrightarrow> c < 0xD800 \<or> 0xE000 \<le> c \<and> c < 0x110000"

definition encode_char :: "nat \<Rightarrow> bytes" where
  "encode_char c = map of_nat
     (if c < 0x80 then [c]
      else if c < 0x800 then [0xC0 + c div 64, 0x80 + c mod 64]
      else if c < 0x10000 then [0xE0 + c div 4096, 0x80 + c div 64 mod 64, 0x80 + c mod 64]
      else [0xF0 + c div 262144, 0x80 + c div 4096 mod 64, 0x80 + c div 64 mod 64, 0x80 + c mod 64])"

definition encode_utf8 :: "nat list \<Rightarrow> bytes" where
  "encode_utf8 cs = concat (map encode_char cs)"

section \<open>Bytes as numbers\<close>

lemma unat_byte_less: "unat (b :: u8) < 256"
  using unsigned_less [of b, where ?'a = nat] by simp

lemma is_cont_unat: "is_cont b \<longleftrightarrow> 128 \<le> unat b \<and> unat b < 192"
proof -
  have "list_all (\<lambda>n. (of_nat n AND 192 = (128 :: u8)) = (128 \<le> n \<and> n < 192)) [0..<256]"
    by code_simp
  then have "(of_nat n AND 192 = (128 :: u8)) = (128 \<le> n \<and> n < 192)" if "n < 256" for n
    using that by (simp add: list_all_iff)
  from this [OF unat_byte_less, of b] show ?thesis by (simp add: is_cont_def)
qed

lemma second_ok_unat:
  "second_ok3 b c \<longleftrightarrow>
     unat b = 0xE0 \<and> 0xA0 \<le> unat c \<and> unat c \<le> 0xBF \<or>
     0xE1 \<le> unat b \<and> unat b \<le> 0xEF \<and> unat b \<noteq> 0xED \<and> 0x80 \<le> unat c \<and> unat c \<le> 0xBF \<or>
     unat b = 0xED \<and> 0x80 \<le> unat c \<and> unat c \<le> 0x9F"
  "second_ok4 b c \<longleftrightarrow>
     unat b = 0xF0 \<and> 0x90 \<le> unat c \<and> unat c \<le> 0xBF \<or>
     0xF1 \<le> unat b \<and> unat b \<le> 0xF3 \<and> 0x80 \<le> unat c \<and> unat c \<le> 0xBF \<or>
     unat b = 0xF4 \<and> 0x80 \<le> unat c \<and> unat c \<le> 0x8F"
  by (auto simp: second_ok3_def second_ok4_def word_le_nat_alt word_unat_eq_iff)

lemma char_width_unat:
  "utf8_char_width b = 1 \<longleftrightarrow> unat b < 0x80"
  "utf8_char_width b = 2 \<longleftrightarrow> 0xC2 \<le> unat b \<and> unat b \<le> 0xDF"
  "utf8_char_width b = 3 \<longleftrightarrow> 0xE0 \<le> unat b \<and> unat b \<le> 0xEF"
  "utf8_char_width b = 4 \<longleftrightarrow> 0xF0 \<le> unat b \<and> unat b \<le> 0xF4"
  by (auto simp: utf8_char_width_def word_le_nat_alt word_less_nat_alt)

section \<open>Characters\<close>

text \<open>The well-formed sequences of each width encode scalar values.\<close>

lemma byte_of_nat: "unat (b :: u8) = n \<Longrightarrow> b = of_nat n"
  by auto

text \<open>Numbers in base 64.\<close>

lemma base64: "(q :: nat) < 64 \<Longrightarrow> (p * 64 + q) div 64 = p" "(q :: nat) < 64 \<Longrightarrow> (p * 64 + q) mod 64 = q"
  by simp_all

lemma base64_div: "(n :: nat) div 4096 = n div 64 div 64" "(n :: nat) div 262144 = n div 64 div 64 div 64"
  using div_mult2_eq [of n 64 64] div_mult2_eq [of n 4096 64] by simp_all

lemma encoded1: "unat (b :: u8) < 0x80 \<Longrightarrow> scalar_value (unat b) \<and> [b] = encode_char (unat b)"
  by (simp add: scalar_value_def encode_char_def)

lemma encoded2:
  assumes "0xC2 \<le> unat b" "unat b \<le> 0xDF" "is_cont c1"
  shows "\<exists>c. scalar_value c \<and> [b, c1] = encode_char c"
proof -
  define p q where "p = unat b - 0xC0" and "q = unat c1 - 0x80"
  with assms have pq: "unat b = 0xC0 + p" "unat c1 = 0x80 + q" "2 \<le> p" "p < 32" "q < 64"
    by (auto simp: is_cont_unat)
  have "(p * 64 + q) div 64 = p" "(p * 64 + q) mod 64 = q" using pq by simp_all
  then have "encode_char (p * 64 + q) = [of_nat (0xC0 + p), of_nat (0x80 + q)]"
    using pq by (simp add: encode_char_def)
  with pq(1,2) [THEN byte_of_nat] pq(3-) show ?thesis
    by (intro exI [of _ "p * 64 + q"]) (simp only: scalar_value_def, simp)
qed

lemma encoded3:
  assumes "second_ok3 b c1" "is_cont c2"
  shows "\<exists>c. scalar_value c \<and> [b, c1, c2] = encode_char c"
proof -
  define p q r where "p = unat b - 0xE0" and "q = unat c1 - 0x80" and "r = unat c2 - 0x80"
  with assms have pq: "unat b = 0xE0 + p" "unat c1 = 0x80 + q" "unat c2 = 0x80 + r" "p < 16" "q < 64" "r < 64"
    and sec: "p = 0 \<longrightarrow> 32 \<le> q" "p = 13 \<longrightarrow> q < 32"
    by (auto simp: is_cont_unat second_ok_unat)
  let ?c = "(p * 64 + q) * 64 + r"
  have "?c div 4096 = p" "?c div 64 mod 64 = q" "?c mod 64 = r" using pq by (simp_all only: base64 base64_div)
  moreover have c: "0x800 \<le> ?c" "?c < 0x10000" "scalar_value ?c"
    using pq(4-) sec unfolding scalar_value_def by (cases "p = 0"; cases "p < 13"; cases "p = 13"; auto)+
  ultimately have "encode_char ?c = [of_nat (0xE0 + p), of_nat (0x80 + q), of_nat (0x80 + r)]"
    unfolding encode_char_def by simp
  with pq(1-3) [THEN byte_of_nat] c(3) show ?thesis by (intro exI [of _ ?c]) (simp only: simp_thms)
qed

lemma encoded4:
  assumes "second_ok4 b c1" "is_cont c2" "is_cont c3"
  shows "\<exists>c. scalar_value c \<and> [b, c1, c2, c3] = encode_char c"
proof -
  define p q r t where "p = unat b - 0xF0" and "q = unat c1 - 0x80" and "r = unat c2 - 0x80" and "t = unat c3 - 0x80"
  with assms have pq: "unat b = 0xF0 + p" "unat c1 = 0x80 + q" "unat c2 = 0x80 + r" "unat c3 = 0x80 + t"
    "p < 5" "q < 64" "r < 64" "t < 64" and sec: "p = 0 \<longrightarrow> 16 \<le> q" "p = 4 \<longrightarrow> q < 16"
    by (auto simp: is_cont_unat second_ok_unat)
  let ?c = "((p * 64 + q) * 64 + r) * 64 + t"
  have "?c div 262144 = p" "?c div 4096 mod 64 = q" "?c div 64 mod 64 = r" "?c mod 64 = t"
    using pq by (simp_all only: base64 base64_div)
  moreover have c: "0x10000 \<le> ?c" "?c < 0x110000"
    using pq(5-) sec by (cases "p = 0"; cases "p = 4"; auto)+
  ultimately have "encode_char ?c = [of_nat (0xF0 + p), of_nat (0x80 + q), of_nat (0x80 + r), of_nat (0x80 + t)]"
    unfolding encode_char_def by simp
  with pq(1-4) [THEN byte_of_nat] c show ?thesis
    by (intro exI [of _ ?c]) (simp only: scalar_value_def, simp)
qed

lemma safe_get_Cons [simp]: "safe_get (b # bs) 0 = b" "safe_get (b # bs) (Suc i) = safe_get bs i"
  by (simp_all add: safe_get_def)

text \<open>A scanned character is the encoding of a scalar value.\<close>

lemma scan_char_encoded:
  assumes "bs \<noteq> []" "scan_char bs = (True, n)"
  shows "\<exists>c. scalar_value c \<and> take n bs = encode_char c"
proof -
  let ?g = "safe_get bs"
  have len: "n \<le> length bs" using scan_char_len [OF assms(1)] assms(2) by simp
  have at: "bs ! i = ?g i" if "i < n" for i using that len by (simp add: safe_get_def)
  from assms(2) consider (1) "n = 1" "unat (?g 0) < 0x80"
    | (2) "n = 2" "0xC2 \<le> unat (?g 0)" "unat (?g 0) \<le> 0xDF" "is_cont (?g 1)"
    | (3) "n = 3" "second_ok3 (?g 0) (?g 1)" "is_cont (?g 2)"
    | (4) "n = 4" "second_ok4 (?g 0) (?g 1)" "is_cont (?g 2)" "is_cont (?g 3)"
    unfolding scan_char_def Let_def char_width_unat by (auto split: if_splits)
  then show ?thesis
  proof cases
    case 1
    have "take n bs = [?g 0]" using len by (intro nth_equalityI) (simp_all add: 1 at)
    with encoded1 [OF 1(2)] show ?thesis by auto
  next
    case 2
    have "take n bs = [?g 0, ?g 1]" using len by (intro nth_equalityI) (auto simp: 2(1) at less_Suc_eq numeral_eq_Suc)
    with encoded2 [OF 2(2-)] show ?thesis by simp
  next
    case 3
    have "take n bs = [?g 0, ?g 1, ?g 2]"
      using len by (intro nth_equalityI) (auto simp: 3(1) at less_Suc_eq numeral_eq_Suc)
    with encoded3 [OF 3(2-)] show ?thesis by simp
  next
    case 4
    have "take n bs = [?g 0, ?g 1, ?g 2, ?g 3]"
      using len by (intro nth_equalityI) (auto simp: 4(1) at less_Suc_eq numeral_eq_Suc)
    with encoded4 [OF 4(2-)] show ?thesis by simp
  qed
qed

text \<open>The encoding of a scalar value is scanned as one character.\<close>

lemma unat_byte: "n < 256 \<Longrightarrow> unat (of_nat n :: u8) = n"
  by (simp add: unat_of_nat)

lemma cont_byte: "n < 64 \<Longrightarrow> is_cont (of_nat (0x80 + n))"
  by (simp only: is_cont_unat unat_byte) simp

lemma scan_char_bytes:
  "unat b < 0x80 \<Longrightarrow> scan_char (b # ys) = (True, 1)"
  "0xC2 \<le> unat b \<Longrightarrow> unat b \<le> 0xDF \<Longrightarrow> is_cont c1 \<Longrightarrow> scan_char (b # c1 # ys) = (True, 2)"
  "second_ok3 b c1 \<Longrightarrow> is_cont c2 \<Longrightarrow> scan_char (b # c1 # c2 # ys) = (True, 3)"
  "second_ok4 b c1 \<Longrightarrow> is_cont c2 \<Longrightarrow> is_cont c3 \<Longrightarrow> scan_char (b # c1 # c2 # c3 # ys) = (True, 4)"
proof -
  note simps = scan_char_def Let_def char_width_unat safe_get_def
  show "scan_char (b # ys) = (True, 1)" if "unat b < 0x80" using that unfolding simps by simp
  show "scan_char (b # c1 # ys) = (True, 2)" if "0xC2 \<le> unat b" "unat b \<le> 0xDF" "is_cont c1"
    using that unfolding simps by simp
  show "scan_char (b # c1 # c2 # ys) = (True, 3)" if "second_ok3 b c1" "is_cont c2"
    using that second_ok_unat(1) [of b c1] unfolding simps by auto
  show "scan_char (b # c1 # c2 # c3 # ys) = (True, 4)" if "second_ok4 b c1" "is_cont c2" "is_cont c3"
    using that second_ok_unat(2) [of b c1] unfolding simps by auto
qed

lemma scan_char_encode:
  assumes "scalar_value c"
  shows "scan_char (encode_char c @ ys) = (True, length (encode_char c))"
proof -
  define x y p where "x = c div 64" and "y = x div 64" and "p = y div 64"
  define q r t where "q = y mod 64" and "r = x mod 64" and "t = c mod 64"
  have c: "c = x * 64 + t" "x = y * 64 + r" "y = p * 64 + q" and lt: "q < 64" "r < 64" "t < 64"
    by (simp_all add: x_def y_def p_def q_def r_def t_def)
  have e: "encode_char c = map of_nat (if c < 0x80 then [c] else if c < 0x800 then [0xC0 + x, 0x80 + t]
      else if c < 0x10000 then [0xE0 + y, 0x80 + r, 0x80 + t] else [0xF0 + p, 0x80 + q, 0x80 + r, 0x80 + t])"
    unfolding encode_char_def base64_div x_def y_def p_def q_def r_def t_def ..
  consider (1) "c < 0x80" | (2) "0x80 \<le> c" "c < 0x800" | (3) "0x800 \<le> c" "c < 0x10000" | (4) "0x10000 \<le> c"
    by linarith
  then show ?thesis
  proof cases
    case 1
    then show ?thesis by (simp add: e scan_char_bytes(1) unat_of_nat)
  next
    case 2
    then have x: "2 \<le> x" "x < 32" using c(1) lt(3) by linarith+
    then have "unat (of_nat (0xC0 + x) :: u8) = 0xC0 + x" by (intro unat_byte) simp
    with 2 x scan_char_bytes(2) [OF _ _ cont_byte [OF lt(3)], of "of_nat (0xC0 + x)" ys] show ?thesis
      by (simp add: e)
  next
    case 3
    then have y: "y < 16" "0 < y \<or> 32 \<le> r" using c lt by linarith+
    have "y \<noteq> 13 \<or> r < 32" using 3 assms c lt unfolding scalar_value_def by linarith
    with y lt have "second_ok3 (of_nat (0xE0 + y)) (of_nat (0x80 + r))"
      by (simp only: second_ok_unat unat_byte) auto
    with 3 scan_char_bytes(3) [OF _ cont_byte [OF lt(3)], of _ _ ys] show ?thesis by (simp add: e)
  next
    case 4
    with assms have "c < 0x110000" by (auto simp: scalar_value_def)
    with 4 have p: "p < 5" "0 < p \<or> 16 \<le> q" "p < 4 \<or> q < 16" using c lt by linarith+
    with lt have "second_ok4 (of_nat (0xF0 + p)) (of_nat (0x80 + q))"
      by (simp only: second_ok_unat unat_byte) auto
    with 4 scan_char_bytes(4) [OF _ cont_byte [OF lt(2)] cont_byte [OF lt(3)], of _ _ ys] show ?thesis
      by (simp add: e)
  qed
qed

section \<open>Valid strings\<close>

lemma encode_utf8_simps [simp]:
  "encode_utf8 [] = []" "encode_utf8 (c # cs) = encode_char c @ encode_utf8 cs"
  by (simp_all add: encode_utf8_def)

lemma valid_encode: "\<forall>c \<in> set cs. scalar_value c \<Longrightarrow> valid_utf8 (encode_utf8 cs)"
proof (induction cs)
  case (Cons c cs)
  then have s: "scan_char (encode_char c @ encode_utf8 cs) = (True, length (encode_char c))"
    by (intro scan_char_encode) simp
  have "encode_char c \<noteq> []" by (simp add: encode_char_def)
  with Cons s show ?case by (subst valid_utf8.simps) simp
qed simp

lemma encode_of_valid: "valid_utf8 bs \<Longrightarrow> \<exists>cs. (\<forall>c \<in> set cs. scalar_value c) \<and> bs = encode_utf8 cs"
proof (induction bs rule: valid_utf8.induct)
  case (1 bs)
  show ?case
  proof (cases "bs = []")
    case False
    obtain ok n where s: "scan_char bs = (ok, n)" by (cases "scan_char bs")
    with False "1.prems" have ok: "scan_char bs = (True, n)" "valid_utf8 (drop n bs)"
      by (simp_all add: valid_utf8.simps [of bs] split: if_splits)
    from "1.IH" [OF False refl ok(1) [symmetric] _ ok(2)] obtain cs where
      "\<forall>c \<in> set cs. scalar_value c" "drop n bs = encode_utf8 cs" by blast
    moreover from scan_char_encoded [OF False ok(1)] obtain c where "scalar_value c" "take n bs = encode_char c" by blast
    ultimately show ?thesis by (intro exI [of _ "c # cs"]) (simp, metis append_take_drop_id)
  qed (auto intro: exI [of _ "[]"])
qed

lemma valid_utf8_iff: "valid_utf8 bs \<longleftrightarrow> (\<exists>cs. (\<forall>c \<in> set cs. scalar_value c) \<and> bs = encode_utf8 cs)"
  using valid_encode encode_of_valid by blast

text \<open>So the lossy conversion leaves a string alone exactly when it is an encoding.\<close>

lemma from_utf8_lossy_id:
  "as_bytes (from_utf8_lossy bs) = bs \<longleftrightarrow> (\<exists>cs. (\<forall>c \<in> set cs. scalar_value c) \<and> bs = encode_utf8 cs)"
  unfolding valid_utf8_iff [symmetric] from_utf8_lossy_def
  using lossy_valid [of bs] valid_utf8_lossy [of bs] by auto

lemma from_utf8_lossy_encoded:
  "\<exists>cs. (\<forall>c \<in> set cs. scalar_value c) \<and> as_bytes (from_utf8_lossy bs) = encode_utf8 cs"
  using valid_utf8_lossy [of bs] by (simp add: from_utf8_lossy_def valid_utf8_iff)

end
