(* ===== verification/Error_Properties.thy ===== *)
theory Error_Properties
  imports Error_Mapping Utf8_Encode
begin

text \<open>
  The properties of \<^verbatim>\<open>src/errors.rs\<close>: what a Python caller can rely on when an operation raises.
\<close>


text \<open>
  The three families of exceptions do not overlap: no exception is caught by two of SessionError,
  StreamError and DatagramError, and every class of the module derives from WebTransportError.
\<close>

lemma exception_families:
  "\<not> (catches SessionError e \<and> catches StreamError e) \<and>
   \<not> (catches SessionError e \<and> catches DatagramError e) \<and>
   \<not> (catches StreamError e \<and> catches DatagramError e) \<and>
   (catches WebTransportError e \<longleftrightarrow> exc e \<notin> {PyException, PyValueError, PyStopAsyncIteration})"
proof (intro conjI)
  show "\<not> (catches SessionError e \<and> catches StreamError e)"
    "\<not> (catches SessionError e \<and> catches DatagramError e)"
    "\<not> (catches StreamError e \<and> catches DatagramError e)"
    unfolding catches_def
    using exc.siblings_disjoint [of SessionError StreamError "exc e"]
      exc.siblings_disjoint [of SessionError DatagramError "exc e"]
      exc.siblings_disjoint [of StreamError DatagramError "exc e"] by auto
  show "catches WebTransportError e \<longleftrightarrow> exc e \<notin> {PyException, PyValueError, PyStopAsyncIteration}"
    by (cases "exc e") (simp_all add: catches_def is_subclass_def)
qed

text \<open>
  What it means that the peer closed the session: where the close came from, its code and its
  reason, read off the error value without the message it is turned into.
\<close>

fun conn_peer_close :: "(u64 \<Rightarrow> u32 option) \<Rightarrow> 'x connection_error \<Rightarrow> (string \<times> int option \<times> bytes) option"
  where
  "conn_peer_close h3 (ConnectionError_ApplicationClosed code r) =
     Some (''application'', map_option uint (h3 code), lossy r)"
| "conn_peer_close h3 (ConnectionError_ConnectionClosed code r) =
     Some (''transport'', Some (uint code), lossy r)"
| "conn_peer_close h3 ConnectionError_Reset = Some (''connection-reset'', None, [])"
| "conn_peer_close h3 _ = None"

fun peer_close :: "(u64 \<Rightarrow> u32 option) \<Rightarrow> 'x session_error \<Rightarrow> (string \<times> int option \<times> bytes) option"
  where
  "peer_close h3 (SessionError_ConnectionError ce) = conn_peer_close h3 ce"
| "peer_close h3 (SessionError_SendDatagramError (SendDatagramError_ConnectionLost ce)) =
     conn_peer_close h3 ce"
| "peer_close h3 (SessionError_WebTransportError (WebTransportError_Closed code r)) =
     Some (''session'', Some (uint code), as_bytes r)"
| "peer_close h3 _ = None"

definition py_close_info :: "py_err \<Rightarrow> (string \<times> int option \<times> bytes) option" where
  "py_close_info e =
     (if exc e = SessionClosedByPeer then
        (case (attr ''source'' e, attr ''code'' e, attr ''reason'' e) of
           (Some (PyStr s), Some PyNone, Some (PyStr r)) \<Rightarrow> Some (s, None, as_bytes r)
         | (Some (PyStr s), Some (PyInt c), Some (PyStr r)) \<Rightarrow> Some (s, Some c, as_bytes r)
         | _ \<Rightarrow> None)
      else None)"

lemma py_close_info_new_err [simp]: "py_close_info (new_err c m) = None"
  by (simp add: py_close_info_def)

lemma py_close_info_datagram [simp]: "py_close_info (new_datagram_not_supported_error r) = None"
  by (simp add: py_close_info_def)

lemma py_close_info_closed [simp]:
  "py_close_info (new_session_closed_by_peer s c r) = Some (s, map_option uint c, as_bytes r)"
  by (cases c) (simp_all add: py_close_info_def py_opt_int_def)

lemma uint_ucast_u32 [simp]: "uint (ucast (c :: u32) :: u64) = uint c"
  using less_trans [OF uint_below(2) [of c], of 18446744073709551616]
  by (simp add: unsigned_ucast_eq take_bit_int_eq_self_iff)

lemma py_close_info_connection:
  "py_close_info (map_connection_error X ce) = conn_peer_close (error_from_http3 X) ce"
  by (cases ce) (auto simp: Let_def from_utf8_lossy_def comp_def option.map_comp as_bytes_def [of "[]"])

text \<open>
  The attributes as the type stubs document them: the code is None unless the close came from the
  session or the application layer.
\<close>

fun stub_close_info :: "string \<times> int option \<times> bytes \<Rightarrow> string \<times> int option \<times> bytes" where
  "stub_close_info (source, code, reason) =
     (source, if source \<in> {''session'', ''application''} then code else None, reason)"

text \<open>The error of a connection that the peer's QUIC stack closed at the transport level.\<close>

fun transport_close :: "'x session_error \<Rightarrow> bool" where
  "transport_close (SessionError_ConnectionError (ConnectionError_ConnectionClosed code r)) = True"
| "transport_close (SessionError_SendDatagramError (SendDatagramError_ConnectionLost
     (ConnectionError_ConnectionClosed code r))) = True"
| "transport_close _ = False"

lemma conn_stub_close_info:
  "map_option stub_close_info (conn_peer_close h3 ce) = conn_peer_close h3 ce \<longleftrightarrow>
    (\<forall>code r. ce \<noteq> ConnectionError_ConnectionClosed code r)"
  by (cases ce) simp_all

text \<open>
  C6: a session error is raised as SessionClosedByPeer exactly when the peer closed the session, also
  when it surfaces while sending a datagram, and its attributes then are the layer, the code and the
  reason the peer's close had; invalid UTF-8 in the reason is replaced. These are the attributes the
  type stubs document exactly when the close was not a transport-level one: there the stubs promise
  None for the code, and the code sets the transport's.
\<close>

theorem session_error_refines_peer_close:
  "py_close_info (map_session_error X e) = peer_close (error_from_http3 X) e \<and>
   (exc (map_session_error X e) = SessionClosedByPeer \<longleftrightarrow> peer_close (error_from_http3 X) e \<noteq> None) \<and>
   (py_close_info (map_session_error X e) = map_option stub_close_info (peer_close (error_from_http3 X) e) \<longleftrightarrow>
     \<not> transport_close e)"
proof -
  have *: "exc (map_connection_error X ce) = SessionClosedByPeer \<longleftrightarrow>
      conn_peer_close (error_from_http3 X) ce \<noteq> None" for ce
    by (cases ce) (simp_all add: Let_def)
  have stub: "conn_peer_close h3 ce = map_option stub_close_info (conn_peer_close h3 ce) \<longleftrightarrow>
      (\<forall>code r. ce \<noteq> ConnectionError_ConnectionClosed code r)" for h3 ce
    using conn_stub_close_info [of h3 ce] by metis
  have info: "py_close_info (map_session_error X e) = peer_close (error_from_http3 X) e \<and>
      (exc (map_session_error X e) = SessionClosedByPeer \<longleftrightarrow> peer_close (error_from_http3 X) e \<noteq> None)"
    by (cases "(error_from_http3 X, e)" rule: peer_close.cases) (simp_all add: * py_close_info_connection)
  moreover have "peer_close h3 e = map_option stub_close_info (peer_close h3 e) \<longleftrightarrow> \<not> transport_close e" for h3
    by (cases e rule: transport_close.cases; cases "(h3, e)" rule: peer_close.cases) (auto simp: stub)
  ultimately show ?thesis by simp
qed

text \<open>
  C19: the reason a peer gave reaches Python as text, for an application close and for a transport
  close alike. Whatever bytes were received, the reason is the UTF-8 encoding of a sequence of
  Unicode scalar values, and it is the bytes received exactly when these are such an encoding.
\<close>

theorem close_reason_text:
  "\<exists>s. attr ''reason'' (map_connection_error X (ConnectionError_ApplicationClosed code r)) = Some (PyStr s) \<and>
    attr ''reason'' (map_connection_error X (ConnectionError_ConnectionClosed code' r)) = Some (PyStr s) \<and>
    (\<exists>cs. (\<forall>c \<in> set cs. scalar_value c) \<and> as_bytes s = encode_utf8 cs) \<and>
    (as_bytes s = r \<longleftrightarrow> (\<exists>cs. (\<forall>c \<in> set cs. scalar_value c) \<and> r = encode_utf8 cs))"
  using from_utf8_lossy_encoded [of r] from_utf8_lossy_id [of r] by (simp add: Let_def)

theorem close_reason_text_witness:
  "\<exists>s. attr ''reason'' (map_connection_error ext_ref
      (ConnectionError_ApplicationClosed 7 [0xE2, 0x82, 0xAC])) = Some (PyStr s) \<and>
    as_bytes s = [0xE2, 0x82, 0xAC]"
proof -
  have "(\<forall>c \<in> set [0x20AC]. scalar_value c) \<and> [0xE2, 0x82, 0xAC] = encode_utf8 [0x20AC]"
    by (simp add: scalar_value_def encode_char_def)
  with close_reason_text [of ext_ref 7 "[0xE2, 0x82, 0xAC]" 0] show ?thesis by blast
qed

text \<open>
  C37: a stream exception says which of STOP_SENDING and RESET_STREAM the peer sent, and its code: a
  write error is StreamClosedByPeer exactly when the peer stopped the stream, with kind stop, a
  read error exactly when it reset it, with kind reset, and the code is the peer's.
\<close>

theorem stream_closed_by_peer_code:
  "(exc (map_write_error X we) = StreamClosedByPeer \<longleftrightarrow> (\<exists>c. we = WriteError_Stopped c)) \<and>
   (exc (map_read_error X re) = StreamClosedByPeer \<longleftrightarrow> (\<exists>c. re = ReadError_Reset c)) \<and>
   attr ''kind'' (map_write_error X (WriteError_Stopped c)) = Some (PyStr ''stop'') \<and>
   attr ''code'' (map_write_error X (WriteError_Stopped c)) = Some (PyInt (uint c)) \<and>
   attr ''kind'' (map_read_error X (ReadError_Reset c)) = Some (PyStr ''reset'') \<and>
   attr ''code'' (map_read_error X (ReadError_Reset c)) = Some (PyInt (uint c))"
proof -
  have se: "exc (map_session_error X se) \<noteq> StreamClosedByPeer" for se
    using session_error_no_stream [of X se] by simp
  show ?thesis by (intro conjI; (cases we; cases re)?) (simp_all add: se)
qed

end
