(* ===== verification/Net_Addr.thy ===== *)
theory Net_Addr
  imports Prelude
begin

text \<open>
  Socket addresses of the Rust standard library, as \<^verbatim>\<open>src/server.rs\<close>, \<^verbatim>\<open>src/client.rs\<close> and
  \<^verbatim>\<open>src/session.rs\<close> use them: parsing of \<^verbatim>\<open>bind\<close> and of \<^verbatim>\<open>"[::]:0"\<close>, and the text of an IP address.
  The parser is the recursive-descent parser of \<^verbatim>\<open>core::net\<close>: every reader takes a prefix of the
  input or fails with the position unchanged.
\<close>

section \<open>Addresses\<close>

text \<open>An IPv4 address is its 4 octets, an IPv6 address its 8 groups.\<close>

datatype ip_addr = Ipv4Addr "u8 list" | Ipv6Addr "u16 list"

datatype socket_addr =
    SocketAddrV4 "u8 list" u16
  | SocketAddrV6 "u16 list" u32 u32 u16   \<comment> \<open>groups, flow information, scope id, port\<close>

fun addr_ip :: "socket_addr \<Rightarrow> ip_addr" where
  "addr_ip (SocketAddrV4 os port) = Ipv4Addr os"
| "addr_ip (SocketAddrV6 gs flow scope port) = Ipv6Addr gs"

fun addr_port :: "socket_addr \<Rightarrow> u16" where
  "addr_port (SocketAddrV4 os port) = port"
| "addr_port (SocketAddrV6 gs flow scope port) = port"

section \<open>Parsing\<close>

definition to_digit :: "nat \<Rightarrow> char \<Rightarrow> nat option" where
  "to_digit radix c =
     (let n = of_char c;
          d = (if 48 \<le> n \<and> n \<le> 57 then n - 48
               else if 97 \<le> n \<and> n \<le> 122 then n - 87
               else if 65 \<le> n \<and> n \<le> 90 then n - 55
               else radix)
      in if d < radix then Some d else None)"

text \<open>The longest run of digits and the rest of the input.\<close>

fun read_digits :: "nat \<Rightarrow> string \<Rightarrow> nat list \<times> string" where
  "read_digits radix [] = ([], [])"
| "read_digits radix (c # cs) =
     (case to_digit radix c of
        None \<Rightarrow> ([], c # cs)
      | Some d \<Rightarrow> (let (ds, rest) = read_digits radix cs in (d # ds, rest)))"

definition digits_value :: "nat \<Rightarrow> nat list \<Rightarrow> nat" where
  "digits_value radix ds = foldl (\<lambda>a d. a * radix + d) 0 ds"

text \<open>
  \<^verbatim>\<open>read_number\<close>: fails on no digit, too many digits, a forbidden leading zero, or a value that
  does not fit the number type (below \<open>bound\<close>).
\<close>

definition read_number ::
  "nat \<Rightarrow> nat option \<Rightarrow> bool \<Rightarrow> nat \<Rightarrow> string \<Rightarrow> (nat \<times> string) option" where
  "read_number radix max_digits allow_zero_prefix bound s =
     (let (ds, rest) = read_digits radix s; v = digits_value radix ds in
      if ds = [] then None
      else if (case max_digits of None \<Rightarrow> False | Some k \<Rightarrow> length ds > k) then None
      else if \<not> allow_zero_prefix \<and> hd ds = 0 \<and> length ds > 1 then None
      else if v < bound then Some (v, rest) else None)"

fun read_given_char :: "char \<Rightarrow> string \<Rightarrow> string option" where
  "read_given_char c [] = None"
| "read_given_char c (d # cs) = (if d = c then Some cs else None)"

text \<open>\<^verbatim>\<open>read_separator\<close>: every item but the first is preceded by the separator.\<close>

definition read_separator ::
  "char \<Rightarrow> bool \<Rightarrow> (string \<Rightarrow> ('a \<times> string) option) \<Rightarrow> string \<Rightarrow> ('a \<times> string) option" where
  "read_separator sep first inner s =
     (if first then inner s
      else case read_given_char sep s of None \<Rightarrow> None | Some r \<Rightarrow> inner r)"

fun read_octets :: "nat \<Rightarrow> bool \<Rightarrow> string \<Rightarrow> (u8 list \<times> string) option" where
  "read_octets 0 first s = Some ([], s)"
| "read_octets (Suc n) first s =
     (case read_separator CHR ''.'' first (read_number 10 (Some 3) False 256) s of
        None \<Rightarrow> None
      | Some (v, r) \<Rightarrow> map_option (\<lambda>(os, r'). (of_nat v # os, r')) (read_octets n False r))"

definition read_ipv4_addr :: "string \<Rightarrow> (u8 list \<times> string) option" where
  "read_ipv4_addr s = read_octets 4 True s"

definition be_group :: "u8 \<Rightarrow> u8 \<Rightarrow> u16" where
  "be_group hi lo = of_nat (256 * unat hi + unat lo)"

text \<open>
  \<^verbatim>\<open>read_groups\<close>: up to \<open>n\<close> groups; an embedded IPv4 address may end them when at least two are
  left.
\<close>

fun read_groups :: "nat \<Rightarrow> bool \<Rightarrow> string \<Rightarrow> u16 list \<times> bool \<times> string" where
  "read_groups 0 first s = ([], False, s)"
| "read_groups (Suc n) first s =
     (case (if n = 0 then None else read_separator CHR '':'' first read_ipv4_addr s) of
        Some (os, r) \<Rightarrow> ([be_group (os ! 0) (os ! 1), be_group (os ! 2) (os ! 3)], True, r)
      | None \<Rightarrow>
          (case read_separator CHR '':'' first (read_number 16 (Some 4) True 65536) s of
             None \<Rightarrow> ([], False, s)
           | Some (g, r) \<Rightarrow>
               (let (gs, v4, r') = read_groups n False r in (of_nat g # gs, v4, r'))))"

definition read_ipv6_addr :: "string \<Rightarrow> (u16 list \<times> string) option" where
  "read_ipv6_addr s =
     (let (head, head_ipv4, r) = read_groups 8 True s in
      if length head = 8 then Some (head, r)
      else if head_ipv4 then None
      else case Option.bind (read_given_char CHR '':'' r) (read_given_char CHR '':'') of
        None \<Rightarrow> None
      | Some r1 \<Rightarrow>
          (let (tail, _, r2) = read_groups (8 - (length head + 1)) True r1
           in Some (head @ replicate (8 - length head - length tail) 0 @ tail, r2)))"

definition read_port :: "string \<Rightarrow> (u16 \<times> string) option" where
  "read_port s = Option.bind (read_given_char CHR '':'' s) (\<lambda>r.
     map_option (\<lambda>(v, r'). (of_nat v, r')) (read_number 10 None True 65536 r))"

definition read_scope_id :: "string \<Rightarrow> u32 \<times> string" where
  "read_scope_id s =
     (case Option.bind (read_given_char CHR ''%'' s) (read_number 10 None True (2 ^ 32)) of
        None \<Rightarrow> (0, s)
      | Some (v, r) \<Rightarrow> (of_nat v, r))"

definition read_socket_addr_v4 :: "string \<Rightarrow> (socket_addr \<times> string) option" where
  "read_socket_addr_v4 s = Option.bind (read_ipv4_addr s) (\<lambda>(ip, r).
     map_option (\<lambda>(port, r'). (SocketAddrV4 ip port, r')) (read_port r))"

definition read_socket_addr_v6 :: "string \<Rightarrow> (socket_addr \<times> string) option" where
  "read_socket_addr_v6 s =
     Option.bind (read_given_char CHR ''['' s) (\<lambda>r0.
     Option.bind (read_ipv6_addr r0) (\<lambda>(ip, r1).
     let (scope_id, r2) = read_scope_id r1 in
     Option.bind (read_given_char CHR '']'' r2) (\<lambda>r3.
     map_option (\<lambda>(port, r'). (SocketAddrV6 ip 0 scope_id port, r')) (read_port r3))))"

text \<open>\<^verbatim>\<open>SocketAddr::from_str\<close>: the whole input must be read; the error is the text it displays.\<close>

definition parse_socket_addr :: "string \<Rightarrow> string + socket_addr" where
  "parse_socket_addr s =
     (let r = (case read_socket_addr_v4 s of Some x \<Rightarrow> Some x | None \<Rightarrow> read_socket_addr_v6 s)
      in case r of
           Some (a, []) \<Rightarrow> Inr a
         | _ \<Rightarrow> Inl ''invalid socket address syntax'')"

section \<open>Printing\<close>

fun join_with :: "string \<Rightarrow> string list \<Rightarrow> string" where
  "join_with sep [] = []"
| "join_with sep [x] = x"
| "join_with sep (x # y # xs) = x @ sep @ join_with sep (y # xs)"

definition hex_digit :: "nat \<Rightarrow> char" where
  "hex_digit d = char_of (if d < 10 then 48 + d else 87 + d)"

fun show_hex :: "nat \<Rightarrow> string" where
  "show_hex n = (if n < 16 then [hex_digit n] else show_hex (n div 16) @ [hex_digit (n mod 16)])"

declare show_hex.simps [simp del]

definition show_ipv4 :: "u8 list \<Rightarrow> string" where
  "show_ipv4 os = join_with ''.'' (map (\<lambda>o'. show_nat (unat o')) os)"

text \<open>
  The longest run of zero groups, the first of the longest: the loop keeps the start and length
  of the longest and of the current run.
\<close>

fun zero_run :: "nat \<Rightarrow> nat \<times> nat \<Rightarrow> nat \<times> nat \<Rightarrow> u16 list \<Rightarrow> nat \<times> nat" where
  "zero_run i longest current [] = longest"
| "zero_run i longest current (g # gs) =
     (if g = 0 then
        let current = (if snd current = 0 then (i, 1) else (fst current, snd current + 1));
            longest = (if snd current > snd longest then current else longest)
        in zero_run (i + 1) longest current gs
      else zero_run (i + 1) longest (0, 0) gs)"

definition fmt_groups :: "u16 list \<Rightarrow> string" where
  "fmt_groups gs = join_with '':'' (map (\<lambda>g. show_hex (unat g)) gs)"

definition show_ipv6 :: "u16 list \<Rightarrow> string" where
  "show_ipv6 gs =
     (if take 6 gs = [0, 0, 0, 0, 0, 0xFFFF] then
        ''::ffff:'' @ show_ipv4 [ucast (drop_bit 8 (gs ! 6)), ucast (gs ! 6),
                                ucast (drop_bit 8 (gs ! 7)), ucast (gs ! 7)]
      else
        (let (start, len) = zero_run 0 (0, 0) (0, 0) gs in
         if len > 1 then fmt_groups (take start gs) @ ''::'' @ fmt_groups (drop (start + len) gs)
         else fmt_groups gs))"

fun show_ip :: "ip_addr \<Rightarrow> string" where
  "show_ip (Ipv4Addr os) = show_ipv4 os"
| "show_ip (Ipv6Addr gs) = show_ipv6 gs"

end
