(* ===== verification/Addr_Roundtrip.thy ===== *)
theory Addr_Roundtrip
  imports Net_Addr
begin

text \<open>
  The addresses the program reports, read back by the parser it uses for \<^verbatim>\<open>bind\<close>: numbers in any
  radix, IPv4 addresses, and IPv6 addresses with their compressed run of zeros and their mapped IPv4
  form.
\<close>

section \<open>Numbers\<close>

fun radix_digits :: "nat \<Rightarrow> nat \<Rightarrow> nat list" where
  "radix_digits b n = (if b < 2 \<or> n < b then [n] else radix_digits b (n div b) @ [n mod b])"

declare radix_digits.simps [simp del]

lemma show_nat_digits: "show_nat n = map hex_digit (radix_digits 10 n)"
proof (induction n rule: show_nat.induct)
  case (1 n)
  then show ?case by (simp add: show_nat.simps [of n] radix_digits.simps [of 10 n] hex_digit_def)
qed

lemma show_hex_digits: "show_hex n = map hex_digit (radix_digits 16 n)"
proof (induction n rule: show_hex.induct)
  case (1 n)
  then show ?case by (simp add: show_hex.simps [of n] radix_digits.simps [of 16 n])
qed

lemma radix_digits_less: "2 \<le> b \<Longrightarrow> d \<in> set (radix_digits b n) \<Longrightarrow> d < b"
proof (induction b n rule: radix_digits.induct)
  case (1 b n)
  then show ?case by (cases "n < b") (auto simp: radix_digits.simps [of b n])
qed

lemma radix_digits_value: "digits_value b (radix_digits b n) = n"
proof (induction b n rule: radix_digits.induct)
  case (1 b n)
  then show ?case
    by (cases "b < 2 \<or> n < b") (simp_all add: radix_digits.simps [of b n] digits_value_def)
qed

lemma radix_digits_not_Nil [simp]: "radix_digits b n \<noteq> []"
  by (simp add: radix_digits.simps [of b n])

lemma radix_digits_hd: "hd (radix_digits b n) = 0 \<Longrightarrow> length (radix_digits b n) = 1"
proof (induction b n rule: radix_digits.induct)
  case (1 b n)
  show ?case
  proof (cases "b < 2 \<or> n < b")
    case False
    then have "radix_digits b n = radix_digits b (n div b) @ [n mod b]"
      by (simp add: radix_digits.simps [of b n])
    with 1 False have "length (radix_digits b (n div b)) = 1" "hd (radix_digits b (n div b)) = 0" by auto
    then have "radix_digits b (n div b) = [0]" by (cases "radix_digits b (n div b)") auto
    with radix_digits_value [of b "n div b"] have "n div b = 0" by (simp add: digits_value_def)
    with False show ?thesis by (auto simp: div_eq_0_iff)
  qed (simp add: radix_digits.simps [of b n])
qed

lemma radix_digits_length: "n < b ^ k \<Longrightarrow> 0 < k \<Longrightarrow> length (radix_digits b n) \<le> k"
proof (induction k arbitrary: n)
  case (Suc k)
  show ?case
  proof (cases "b < 2 \<or> n < b")
    case False
    with Suc.prems have "0 < k" by (cases k) auto
    moreover from Suc.prems have "n div b < b ^ k" by (simp add: less_mult_imp_div_less mult.commute)
    ultimately have "length (radix_digits b (n div b)) \<le> k" by (rule Suc.IH [rotated])
    with False show ?thesis by (simp add: radix_digits.simps [of b n])
  qed (simp add: radix_digits.simps [of b n])
qed simp

text \<open>Reading numbers stops at a character that is no digit.\<close>

definition stops :: "nat \<Rightarrow> string \<Rightarrow> bool" where
  "stops radix s \<longleftrightarrow> (case s of [] \<Rightarrow> True | c # _ \<Rightarrow> to_digit radix c = None)"

lemma stops_simps [simp]:
  "stops radix []" "stops 10 (CHR ''.'' # s)" "stops 10 (CHR '':'' # s)" "stops 10 (CHR ''['' # s)"
  "stops 10 (CHR '']'' # s)" "stops 16 (CHR '':'' # s)" "stops 16 (CHR '']'' # s)"
  by (simp_all add: stops_def to_digit_def)

lemma stops_16_10: "stops 16 s \<Longrightarrow> stops 10 s"
  by (auto simp: stops_def to_digit_def Let_def split: list.splits if_splits)

lemma read_digits_stops: "stops radix s \<Longrightarrow> read_digits radix s = ([], s)"
  by (cases s) (auto simp: stops_def)

lemma read_number_stops: "stops radix s \<Longrightarrow> read_number radix m z b s = None"
  by (simp add: read_number_def read_digits_stops)

lemma to_digit_hex_digit: "d < b \<Longrightarrow> b \<le> 16 \<Longrightarrow> to_digit b (hex_digit d) = Some d"
  by (auto simp: to_digit_def hex_digit_def of_char_of)

lemma read_digits_chars:
  "\<forall>d \<in> set ds. d < b \<Longrightarrow> b \<le> 16 \<Longrightarrow> stops b rest \<Longrightarrow>
   read_digits b (map hex_digit ds @ rest) = (ds, rest)"
  by (induction ds) (auto simp: read_digits_stops to_digit_hex_digit)

lemma read_number_digits:
  assumes "2 \<le> b" "b \<le> 16" "n < bound" "stops b rest"
    "case m of None \<Rightarrow> True | Some k \<Rightarrow> n < b ^ k \<and> 0 < k"
  shows "read_number b m z bound (map hex_digit (radix_digits b n) @ rest) = Some (n, rest)"
proof -
  have "read_digits b (map hex_digit (radix_digits b n) @ rest) = (radix_digits b n, rest)"
    using assms by (intro read_digits_chars) (auto dest: radix_digits_less)
  moreover have "\<not> (case m of None \<Rightarrow> False | Some k \<Rightarrow> length (radix_digits b n) > k)"
    using assms(5) radix_digits_length by (auto simp: not_less split: option.splits)
  ultimately show ?thesis
    using assms(3) radix_digits_hd [of b n] by (auto simp: read_number_def radix_digits_value)
qed

lemmas read_number_show = read_number_digits [of 10, folded show_nat_digits, simplified]
lemmas read_number_hex = read_number_digits [of 16, folded show_hex_digits, simplified]

lemma unat_u8_less: "unat (v :: u8) < 256"
  using unsigned_less [of v, where ?'a = nat] by simp

lemma unat_u16_less: "unat (v :: u16) < 65536"
  using unsigned_less [of v, where ?'a = nat] by simp

lemma read_octet_show:
  "stops 10 rest \<Longrightarrow> read_number 10 (Some 3) False 256 (show_nat (unat (v :: u8)) @ rest) = Some (unat v, rest)"
  using unat_u8_less [of v] by (intro read_number_show) (auto intro: less_trans)

lemma read_group_show:
  "stops 16 rest \<Longrightarrow> read_number 16 (Some 4) True 65536 (show_hex (unat (g :: u16)) @ rest) = Some (unat g, rest)"
  using unat_u16_less [of g] by (intro read_number_hex) auto

lemma read_port_show: "read_port (CHR '':'' # show_nat (unat (port :: u16))) = Some (port, [])"
  using read_number_show [of "unat port" 65536 "[]" None True] unat_u16_less [of port]
  by (simp add: read_port_def)

text \<open>Printed groups have no dots.\<close>

lemma hex_digit_no_dot: "d < 16 \<Longrightarrow> CHR ''.'' \<noteq> hex_digit d"
  by (auto simp: hex_digit_def dest: arg_cong [of _ _ "of_char :: char \<Rightarrow> nat"])

lemma show_hex_no_dot [simp]: "CHR ''.'' \<notin> set (show_hex n)"
  using radix_digits_less [of 16 _ n] hex_digit_no_dot by (auto simp: show_hex_digits)

section \<open>IPv4 addresses\<close>

lemma read_ipv4_unfold: "read_ipv4_addr s = read_octets (Suc (Suc (Suc (Suc 0)))) True s"
  by (simp add: read_ipv4_addr_def eval_nat_numeral)

lemma read_ipv4_show:
  "stops 10 rest \<Longrightarrow> read_ipv4_addr (show_ipv4 [a, b, c, d] @ rest) = Some ([a, b, c, d], rest)"
  by (simp add: read_ipv4_unfold show_ipv4_def read_separator_def read_octet_show)

lemma read_digits_subset: "read_digits b s = (ds, r) \<Longrightarrow> set r \<subseteq> set s"
  by (induction s arbitrary: ds r) (auto split: option.splits prod.splits)

lemma read_number_no_dot:
  "CHR ''.'' \<notin> set s \<Longrightarrow> read_number b m z k s = Some (v, r) \<Longrightarrow> CHR ''.'' \<notin> set r"
  by (auto simp: read_number_def Let_def dest: read_digits_subset split: prod.splits if_splits)

lemma read_octets_no_dot: "CHR ''.'' \<notin> set s \<Longrightarrow> read_octets (Suc n) False s = None"
  by (cases s) (auto simp: read_separator_def)

lemma read_ipv4_no_dot: "CHR ''.'' \<notin> set s \<Longrightarrow> read_ipv4_addr s = None"
  unfolding read_ipv4_unfold read_octets.simps(2) [of "Suc _" True]
  by (auto simp: read_separator_def simp del: read_octets.simps
      dest: read_number_no_dot intro: read_octets_no_dot split: option.splits)

lemma read_ipv4_stops: "stops 10 s \<Longrightarrow> read_ipv4_addr s = None"
  by (simp add: read_ipv4_unfold read_separator_def read_number_stops)

section \<open>Groups of an IPv6 address\<close>

text \<open>Where a sequence of groups ends: no digit follows, nor a colon and a digit.\<close>

definition ends_groups :: "string \<Rightarrow> bool" where
  "ends_groups s \<longleftrightarrow> stops 16 s \<and>
     (case read_given_char CHR '':'' s of None \<Rightarrow> True | Some r \<Rightarrow> stops 16 r)"

definition more_groups :: "u16 list \<Rightarrow> string" where
  "more_groups gs = concat (map (\<lambda>g. CHR '':'' # show_hex (unat g)) gs)"

lemma fmt_groups_Cons: "fmt_groups (g # gs) = show_hex (unat g) @ more_groups gs"
proof (induction gs arbitrary: g)
  case (Cons h gs)
  then show ?case by (simp add: fmt_groups_def more_groups_def)
qed (simp add: fmt_groups_def more_groups_def)

lemma more_groups_simps [simp]:
  "more_groups [] = []" "more_groups (g # gs) = CHR '':'' # show_hex (unat g) @ more_groups gs"
  by (simp_all add: more_groups_def)

lemma more_groups_no_dot [simp]: "CHR ''.'' \<notin> set (more_groups gs)"
  by (induction gs) simp_all

lemma fmt_groups_no_dot: "CHR ''.'' \<notin> set (fmt_groups gs)"
  by (cases gs) (simp_all add: fmt_groups_Cons, simp add: fmt_groups_def)

lemma more_groups_stops: "stops 16 rest \<Longrightarrow> stops 16 (more_groups gs @ rest)"
  by (cases gs) simp_all

lemma read_given_char_no_dot: "CHR ''.'' \<notin> set s \<Longrightarrow> read_given_char c s = Some r \<Longrightarrow> CHR ''.'' \<notin> set r"
  by (cases s) (auto split: if_splits)

lemma read_groups_more:
  "length gs \<le> n \<Longrightarrow> CHR ''.'' \<notin> set rest \<Longrightarrow> ends_groups rest \<Longrightarrow>
   read_groups n False (more_groups gs @ rest) = (gs, False, rest)"
proof (induction gs arbitrary: n)
  case Nil
  then show ?case
    by (cases n) (auto simp: read_separator_def ends_groups_def read_number_stops read_ipv4_no_dot
        dest: read_given_char_no_dot split: option.splits)
next
  case (Cons g gs)
  then obtain m where "n = Suc m" "length gs \<le> m" by (cases n) auto
  moreover have "stops 16 (more_groups gs @ rest)"
    using Cons.prems by (simp add: ends_groups_def more_groups_stops)
  ultimately show ?case using Cons
    by (auto simp: read_separator_def read_ipv4_no_dot read_group_show)
qed

lemma read_groups_stops: "stops 16 s \<Longrightarrow> read_groups n True s = ([], False, s)"
  by (cases n) (simp_all add: read_separator_def read_ipv4_stops read_number_stops stops_16_10)

lemma read_groups_fmt:
  assumes "length gs \<le> n" "CHR ''.'' \<notin> set rest" "ends_groups rest"
  shows "read_groups n True (fmt_groups gs @ rest) = (gs, False, rest)"
proof (cases gs)
  case Nil
  with assms(3) show ?thesis by (simp add: read_groups_stops ends_groups_def fmt_groups_def)
next
  case (Cons g hs)
  with assms(1) obtain m where "n = Suc m" "length hs \<le> m" by (cases n) auto
  with assms show ?thesis
    by (auto simp: Cons fmt_groups_Cons read_separator_def read_ipv4_no_dot read_group_show
        read_groups_more more_groups_stops ends_groups_def)
qed

section \<open>IPv6 addresses\<close>

text \<open>\<open>zeros gs s l\<close>: the \<open>l\<close> groups from \<open>s\<close> are there and are zero.\<close>

definition zeros :: "u16 list \<Rightarrow> nat \<Rightarrow> nat \<Rightarrow> bool" where
  "zeros gs s l \<longleftrightarrow> s + l \<le> length gs \<and> (\<forall>k. s \<le> k \<and> k < s + l \<longrightarrow> gs ! k = 0)"

lemma zeros_replicate:
  assumes "zeros gs s l"
  shows "gs = take s gs @ replicate l 0 @ drop (s + l) gs"
proof -
  from assms have "take l (drop s gs) = replicate l 0"
    by (intro nth_equalityI) (auto simp: zeros_def)
  then have "drop s gs = replicate l 0 @ drop (s + l) gs"
    by (metis append_take_drop_id drop_drop add.commute)
  then show ?thesis by (metis append_take_drop_id)
qed

text \<open>
  The loop: the longest run found is a run of zeros, and the current run, when there is one, ends
  at the current position.
\<close>

lemma zero_run_zeros:
  assumes "zeros gs (fst lo) (snd lo)"
    "snd cu = 0 \<or> fst cu + snd cu = i \<and> zeros gs (fst cu) (snd cu)" "suf = drop i gs" "i \<le> length gs"
  shows "zeros gs (fst (zero_run i lo cu suf)) (snd (zero_run i lo cu suf))"
  using assms
proof (induction i lo cu suf rule: zero_run.induct)
  case (2 i lo cu g suf)
  from "2.prems"(3) have "i < length gs" by (metis drop_all list.distinct(1) not_less)
  with "2.prems"(3) have i: "i < length gs" "gs ! i = g" "suf = drop (i + 1) gs"
    by (simp_all flip: Cons_nth_drop_Suc)
  show ?case
  proof (cases "g = 0")
    case True
    let ?cu = "if snd cu = 0 then (i, 1) else (fst cu, snd cu + 1)"
    have cu: "fst ?cu + snd ?cu = i + 1" "zeros gs (fst ?cu) (snd ?cu)"
      using "2.prems"(2) i True by (auto simp: zeros_def less_Suc_eq)
    let ?lo = "if snd ?cu > snd lo then ?cu else lo"
    have "zeros gs (fst ?lo) (snd ?lo)" using cu(2) "2.prems"(1) by simp
    with "2.IH"(1) [OF True refl refl] cu i
    have "zeros gs (fst (zero_run (i + 1) ?lo ?cu suf)) (snd (zero_run (i + 1) ?lo ?cu suf))" by simp
    then show ?thesis using True by (simp only: zero_run.simps Let_def if_True refl)
  next
    case False
    with "2.IH"(2) [OF False "2.prems"(1)] i show ?thesis by simp
  qed
qed simp

lemma be_group_bytes: "be_group (ucast (drop_bit 8 g)) (ucast g) = g"
proof -
  have "unat (ucast (drop_bit 8 g) :: u8) = unat g div 256"
    using unat_u16_less [of g]
    by (simp add: unsigned_ucast_eq take_bit_eq_mod drop_bit_eq_div unat_div_distrib)
  moreover have "unat (ucast g :: u8) = unat g mod 256"
    by (simp add: unsigned_ucast_eq take_bit_eq_mod)
  ultimately show ?thesis by (simp add: be_group_def)
qed

text \<open>The mapped form \<^verbatim>\<open>::ffff:a.b.c.d\<close>.\<close>

lemma read_groups_mapped:
  assumes "stops 10 rest"
  shows "read_groups (Suc (Suc (Suc n))) True (''ffff:'' @ show_ipv4 [a, b, c, d] @ rest) =
    ([0xFFFF, be_group a b, be_group c d], True, rest)"
proof -
  let ?r = "CHR '':'' # show_ipv4 [a, b, c, d] @ rest"
  have "read_number 16 (Some 4) True 65536 (''ffff'' @ ?r) = Some (65535, ?r)"
    by (simp add: read_number_def to_digit_def digits_value_def)
  moreover have "read_ipv4_addr (''ffff'' @ ?r) = None"
    by (intro read_ipv4_stops) (simp add: stops_def to_digit_def)
  ultimately show ?thesis
    using read_ipv4_show [OF assms, of a b c d] by (simp add: read_separator_def)
qed

lemma read_ipv6_mapped:
  assumes "stops 10 rest"
  shows "read_ipv6_addr (''::ffff:'' @ show_ipv4 [a, b, c, d] @ rest) =
    Some ([0, 0, 0, 0, 0, 0xFFFF, be_group a b, be_group c d], rest)"
proof -
  have "7 = Suc (Suc (Suc 4))" by simp
  then have "read_groups 7 True (''ffff:'' @ show_ipv4 [a, b, c, d] @ rest) =
      ([0xFFFF, be_group a b, be_group c d], True, rest)"
    using read_groups_mapped [OF assms] by (simp only:)
  moreover have "replicate 5 0 = [0, 0, 0, 0, 0 :: u16]" by (simp add: eval_nat_numeral)
  ultimately show ?thesis by (simp add: read_ipv6_addr_def read_groups_stops)
qed

lemma read_ipv6_compressed:
  assumes "length gs = 8" "zeros gs s l" "1 < l" "CHR ''.'' \<notin> set rest" "ends_groups rest"
  shows "read_ipv6_addr (fmt_groups (take s gs) @ ''::'' @ fmt_groups (drop (s + l) gs) @ rest) = Some (gs, rest)"
proof -
  let ?tail = "fmt_groups (drop (s + l) gs) @ rest"
  have len: "length (take s gs) = s" "s < 7" "length (drop (s + l) gs) = 8 - s - l" "s + l \<le> 8"
    using assms(1-3) by (auto simp: zeros_def)
  have "CHR ''.'' \<notin> set (''::'' @ ?tail)" "ends_groups (''::'' @ ?tail)"
    using assms(4) by (auto simp: ends_groups_def fmt_groups_no_dot)
  then have "read_groups 8 True (fmt_groups (take s gs) @ ''::'' @ ?tail) = (take s gs, False, ''::'' @ ?tail)"
    using len by (intro read_groups_fmt) auto
  moreover have "read_groups (8 - (s + 1)) True ?tail = (drop (s + l) gs, False, rest)"
    using len assms(3-5) by (intro read_groups_fmt) auto
  ultimately show ?thesis
    using len zeros_replicate [OF assms(2)] by (simp add: read_ipv6_addr_def)
qed

lemma read_ipv6_show:
  assumes "length gs = 8" "CHR ''.'' \<notin> set rest" "ends_groups rest"
  shows "read_ipv6_addr (show_ipv6 gs @ rest) = Some (gs, rest)"
proof (cases "take 6 gs = [0, 0, 0, 0, 0, 0xFFFF]")
  case True
  have "gs = take 6 gs @ [gs ! 6, gs ! 7]"
    using assms(1) by (intro nth_equalityI) (auto simp: nth_append less_Suc_eq eval_nat_numeral)
  with True have "gs = [0, 0, 0, 0, 0, 0xFFFF, gs ! 6, gs ! 7]" by simp
  moreover have "stops 10 rest" using assms(3) by (simp add: ends_groups_def stops_16_10)
  ultimately show ?thesis
    using True by (simp add: show_ipv6_def read_ipv6_mapped [simplified] be_group_bytes)
next
  case False
  obtain s l where r: "zero_run 0 (0, 0) (0, 0) gs = (s, l)" by fastforce
  have z: "zeros gs s l" using zero_run_zeros [of gs "(0, 0)" "(0, 0)" 0 gs] r by (simp add: zeros_def)
  show ?thesis
  proof (cases "1 < l")
    case True
    with False r read_ipv6_compressed [OF assms(1) z True assms(2,3)] show ?thesis
      by (simp add: show_ipv6_def)
  next
    case n: False
    from assms read_groups_fmt [of gs 8 rest] have "read_ipv6_addr (fmt_groups gs @ rest) = Some (gs, rest)"
      by (simp add: read_ipv6_addr_def)
    with False n r show ?thesis by (simp add: show_ipv6_def)
  qed
qed

section \<open>Socket addresses\<close>

text \<open>
  A well-formed address has four octets or eight groups. The program reports the host and the port;
  the flow information and the scope id of an IPv6 address are not part of either.
\<close>

fun addr_wf :: "socket_addr \<Rightarrow> bool" where
  "addr_wf (SocketAddrV4 os port) \<longleftrightarrow> length os = 4"
| "addr_wf (SocketAddrV6 gs flow scope port) \<longleftrightarrow> length gs = 8"

fun ip_and_port :: "socket_addr \<Rightarrow> socket_addr" where
  "ip_and_port (SocketAddrV4 os port) = SocketAddrV4 os port"
| "ip_and_port (SocketAddrV6 gs flow scope port) = SocketAddrV6 gs 0 0 port"

fun host_port :: "socket_addr \<Rightarrow> string \<Rightarrow> u16 \<Rightarrow> string" where
  "host_port (SocketAddrV4 os p) host port = host @ '':'' @ show_nat (unat port)"
| "host_port (SocketAddrV6 gs flow scope p) host port = ''['' @ host @ '']:'' @ show_nat (unat port)"

lemma show_nat_no_dot [simp]: "CHR ''.'' \<notin> set (show_nat n)"
proof -
  have "CHR ''.'' \<noteq> hex_digit d" if "d \<in> set (radix_digits 10 n)" for d
    using radix_digits_less [OF _ that] by (intro hex_digit_no_dot) simp
  then show ?thesis by (auto simp: show_nat_digits)
qed

lemma read_socket_addr_v6_show:
  assumes "length gs = 8"
  shows "read_socket_addr_v6 (''['' @ show_ipv6 gs @ '']:'' @ show_nat (unat port)) =
    Some (SocketAddrV6 gs 0 0 port, [])"
proof -
  let ?r = "'']:'' @ show_nat (unat port)"
  have "read_ipv6_addr (show_ipv6 gs @ ?r) = Some (gs, ?r)"
    using assms by (intro read_ipv6_show) (simp_all add: ends_groups_def)
  then show ?thesis by (simp add: read_socket_addr_v6_def read_scope_id_def read_port_show)
qed

text \<open>Every reported address, in the usual spelling, parses back to its IP address and port.\<close>

lemma parse_host_port:
  assumes "addr_wf a"
  shows "parse_socket_addr (host_port a (show_ip (addr_ip a)) (addr_port a)) = Inr (ip_and_port a)"
proof (cases a)
  case (SocketAddrV4 os port)
  with assms obtain w x y z where "os = [w, x, y, z]" by (auto simp: length_Suc_conv eval_nat_numeral)
  with SocketAddrV4 show ?thesis
    by (simp add: parse_socket_addr_def read_socket_addr_v4_def read_ipv4_show read_port_show)
next
  case (SocketAddrV6 gs flow scope port)
  with assms read_socket_addr_v6_show [of gs port] show ?thesis
    by (simp add: parse_socket_addr_def read_socket_addr_v4_def read_ipv4_stops)
qed

lemma parse_wildcard_v6:
  "parse_socket_addr (''[::]:'' @ show_nat (unat port)) = Inr (SocketAddrV6 (replicate 8 0) 0 0 port)"
proof -
  have "read_ipv6_addr (''::]:'' @ show_nat (unat port)) =
      Some (replicate 8 0, '']:'' @ show_nat (unat port))"
    by (simp add: read_ipv6_addr_def read_groups_stops)
  then show ?thesis
    by (simp add: parse_socket_addr_def read_socket_addr_v4_def read_ipv4_stops read_socket_addr_v6_def
        read_scope_id_def read_port_show)
qed

end
