(* ===== verification/Duration.thy ===== *)
theory Duration
  imports Prelude
begin

text \<open>
  \<^verbatim>\<open>std::time::Duration\<close> and its conversion from a floating-point number of seconds, as the
  transport settings of \<^verbatim>\<open>src/client.rs\<close> and \<^verbatim>\<open>src/server.rs\<close> use it. An \<^verbatim>\<open>f64\<close> is its 64 bits
  (IEEE 754 binary64).
\<close>

section \<open>Floating-point numbers\<close>

type_synonym f64 = u64

definition f64_sign :: "f64 \<Rightarrow> bool" where
  "f64_sign x \<longleftrightarrow> 2 ^ 63 \<le> unat x"

definition f64_exp :: "f64 \<Rightarrow> nat" where
  "f64_exp x = unat x div 2 ^ 52 mod 2 ^ 11"

definition f64_frac :: "f64 \<Rightarrow> nat" where
  "f64_frac x = unat x mod 2 ^ 52"

definition f64_is_nan :: "f64 \<Rightarrow> bool" where
  "f64_is_nan x \<longleftrightarrow> f64_exp x = 2047 \<and> f64_frac x \<noteq> 0"

text \<open>The magnitude of a finite number is \<open>f64_num x / f64_den x\<close>.\<close>

definition f64_mant :: "f64 \<Rightarrow> nat" where
  "f64_mant x = (if f64_exp x = 0 then f64_frac x else 2 ^ 52 + f64_frac x)"

definition f64_num :: "f64 \<Rightarrow> nat" where
  "f64_num x = f64_mant x * 2 ^ (f64_exp x - 1075)"

definition f64_den :: "f64 \<Rightarrow> nat" where
  "f64_den x = 2 ^ (1075 - max 1 (f64_exp x))"

text \<open>\<^verbatim>\<open>secs < 0.0\<close>: false for a NaN and for a negative zero.\<close>

definition f64_negative :: "f64 \<Rightarrow> bool" where
  "f64_negative x \<longleftrightarrow> f64_sign x \<and> \<not> f64_is_nan x \<and> \<not> (f64_exp x = 0 \<and> f64_frac x = 0)"

section \<open>Durations\<close>

record duration =
  dur_secs :: u64
  dur_nanos :: u32

definition NANOS_PER_SEC :: nat where
  "NANOS_PER_SEC = 1000000000"

definition as_nanos :: "duration \<Rightarrow> nat" where
  "as_nanos d = unat (dur_secs d) * NANOS_PER_SEC + unat (dur_nanos d)"

definition as_millis :: "duration \<Rightarrow> nat" where
  "as_millis d = as_nanos d div 1000000"

datatype try_from_float_secs_error = Negative | OverflowOrNan

text \<open>Division rounded to the nearest integer, ties to the even one.\<close>

definition round_half_even :: "nat \<Rightarrow> nat \<Rightarrow> nat" where
  "round_half_even a b =
     (let q = a div b; r = a mod b
      in if 2 * r < b \<or> 2 * r = b \<and> even q then q else q + 1)"

text \<open>
  \<^verbatim>\<open>Duration::try_from_secs_f64\<close>: refuses negative numbers, and numbers from \<open>2 ^ 64\<close> up with the
  infinities and NaNs (exponent 1087 is \<open>2 ^ 64\<close>); otherwise rounds to whole nanoseconds.
\<close>

definition try_from_secs_f64 :: "f64 \<Rightarrow> try_from_float_secs_error + duration" where
  "try_from_secs_f64 x =
     (if f64_negative x then Inl Negative
      else if 1087 \<le> f64_exp x then Inl OverflowOrNan
      else let n = round_half_even (f64_num x * NANOS_PER_SEC) (f64_den x)
           in Inr \<lparr>dur_secs = of_nat (n div NANOS_PER_SEC), dur_nanos = of_nat (n mod NANOS_PER_SEC)\<rparr>)"

section \<open>Rounding\<close>

lemma round_half_even_near:
  assumes "0 < b"
  shows "2 * (round_half_even a b * b) \<le> 2 * a + b \<and> 2 * a \<le> 2 * (round_half_even a b * b) + b"
proof -
  have r: "a div b * b + a mod b = a" "a mod b < b" using assms by simp_all
  show ?thesis
  proof (cases "2 * (a mod b) < b \<or> 2 * (a mod b) = b \<and> even (a div b)")
    case True
    then have "round_half_even a b * b = a div b * b" "2 * (a mod b) \<le> b"
      by (auto simp: round_half_even_def Let_def)
    with r show ?thesis by linarith
  next
    case False
    then have "round_half_even a b * b = a div b * b + b" "b \<le> 2 * (a mod b)"
      by (auto simp: round_half_even_def Let_def)
    with r show ?thesis by linarith
  qed
qed

lemma round_half_even_exact: "0 < b \<Longrightarrow> round_half_even (k * b) b = k"
  by (simp add: round_half_even_def)

lemma round_half_even_le:
  assumes "0 < b" "a \<le> k * b"
  shows "round_half_even a b \<le> k"
proof (rule ccontr)
  assume "\<not> ?thesis"
  then have k: "k + 1 \<le> round_half_even a b" by simp
  have "a div b \<le> k" using assms by (metis div_le_mono nonzero_mult_div_cancel_right less_not_refl2)
  moreover have "round_half_even a b \<le> a div b + 1" by (simp add: round_half_even_def Let_def)
  ultimately have q: "a div b = k" "round_half_even a b = k + 1" using k by auto
  with assms have "a mod b = 0"
    by (metis add_le_same_cancel1 div_mult_mod_eq le_zero_eq)
  with q assms(1) show False by (simp add: round_half_even_def)
qed

lemma f64_den_pos [simp]: "0 < f64_den x"
  by (simp add: f64_den_def)

lemma f64_mant_less: "f64_mant x < 2 ^ 53"
proof -
  have "f64_frac x < 2 ^ 52" by (simp add: f64_frac_def)
  then show ?thesis by (simp add: f64_mant_def)
qed

text \<open>Below exponent 1087 the number is less than \<open>2 ^ 64\<close>.\<close>

lemma f64_below_2_64:
  assumes "f64_exp x < 1087"
  shows "f64_num x + f64_den x \<le> 2 ^ 64 * f64_den x"
proof (cases "f64_exp x \<le> 1075")
  case True
  then have "f64_num x < 2 ^ 53" using f64_mant_less [of x] by (simp add: f64_num_def)
  then have "f64_num x + f64_den x \<le> 2 ^ 53 * f64_den x + f64_den x"
    using f64_den_pos [of x] by (metis add_le_mono1 less_imp_le_nat mult.right_neutral mult_le_mono Suc_leI One_nat_def)
  also have "\<dots> \<le> 2 ^ 64 * f64_den x" by simp
  finally show ?thesis .
next
  case False
  then have d: "f64_den x = 1" by (simp add: f64_den_def)
  have "(2 :: nat) ^ (f64_exp x - 1075) \<le> 2 ^ 11"
    using assms by (intro power_increasing) auto
  moreover have "f64_mant x + 1 \<le> 2 ^ 53" using f64_mant_less [of x] by simp
  ultimately have "(f64_mant x + 1) * 2 ^ (f64_exp x - 1075) \<le> 2 ^ 53 * 2 ^ 11"
    by (intro mult_le_mono)
  then have "f64_num x + 2 ^ (f64_exp x - 1075) \<le> 2 ^ 64"
    unfolding f64_num_def by (simp add: algebra_simps)
  moreover have "1 \<le> (2 :: nat) ^ (f64_exp x - 1075)" by simp
  ultimately have "f64_num x + 1 \<le> 2 ^ 64" by linarith
  with d show ?thesis by simp
qed

text \<open>So the seconds and nanoseconds fit their words, and nothing is lost.\<close>

lemma try_from_secs_f64_nanos:
  assumes "try_from_secs_f64 x = Inr d"
  shows "as_nanos d = round_half_even (f64_num x * NANOS_PER_SEC) (f64_den x)"
    and "unat (dur_nanos d) < NANOS_PER_SEC"
proof -
  let ?n = "round_half_even (f64_num x * NANOS_PER_SEC) (f64_den x)"
  from assms have e: "f64_exp x < 1087"
    and d: "d = \<lparr>dur_secs = of_nat (?n div NANOS_PER_SEC), dur_nanos = of_nat (?n mod NANOS_PER_SEC)\<rparr>"
    by (auto simp: try_from_secs_f64_def Let_def split: if_splits)
  have "(f64_num x + f64_den x) * NANOS_PER_SEC \<le> 2 ^ 64 * f64_den x * NANOS_PER_SEC"
    using f64_below_2_64 [OF e] by (rule mult_le_mono1)
  then have "f64_num x * NANOS_PER_SEC \<le> (2 ^ 64 - 1) * NANOS_PER_SEC * f64_den x"
    by (simp add: algebra_simps)
  then have "?n \<le> (2 ^ 64 - 1) * NANOS_PER_SEC" by (intro round_half_even_le) simp_all
  then have "?n div NANOS_PER_SEC \<le> 2 ^ 64 - 1"
    by (metis NANOS_PER_SEC_def div_le_mono nonzero_mult_div_cancel_right zero_neq_numeral)
  then have s: "unat (dur_secs d) = ?n div NANOS_PER_SEC"
    using d by (simp add: unat_of_nat)
  have "?n mod NANOS_PER_SEC < NANOS_PER_SEC" by (simp add: NANOS_PER_SEC_def)
  then have m: "unat (dur_nanos d) = ?n mod NANOS_PER_SEC"
    using d by (simp add: unat_of_nat NANOS_PER_SEC_def)
  show "as_nanos d = ?n" by (simp add: as_nanos_def s m)
  show "unat (dur_nanos d) < NANOS_PER_SEC" by (simp add: m NANOS_PER_SEC_def)
qed

text \<open>
  The conversion is accurate to half a nanosecond, and refuses exactly the numbers that are
  negative, not finite, or too large.
\<close>

lemma try_from_secs_f64_near:
  assumes "try_from_secs_f64 x = Inr d"
  shows "2 * (as_nanos d * f64_den x) \<le> 2 * (f64_num x * NANOS_PER_SEC) + f64_den x \<and>
    2 * (f64_num x * NANOS_PER_SEC) \<le> 2 * (as_nanos d * f64_den x) + f64_den x"
  using round_half_even_near [OF f64_den_pos] try_from_secs_f64_nanos(1) [OF assms] by simp

lemma try_from_secs_f64_ok_iff:
  "(\<exists>d. try_from_secs_f64 x = Inr d) \<longleftrightarrow> \<not> f64_negative x \<and> f64_exp x < 1087"
  by (simp add: try_from_secs_f64_def Let_def)

text \<open>Evaluation: the default timeout of 30 seconds (\<open>0x403E000000000000\<close>) and others.\<close>

lemmas f64_eval = try_from_secs_f64_def f64_negative_def f64_is_nan_def f64_sign_def f64_exp_def
  f64_frac_def f64_num_def f64_den_def f64_mant_def round_half_even_def NANOS_PER_SEC_def Let_def

lemma try_from_30: "try_from_secs_f64 0x403E000000000000 = Inr \<lparr>dur_secs = 30, dur_nanos = 0\<rparr>"
  by (simp add: f64_eval)

lemma try_from_minus_zero: "try_from_secs_f64 0x8000000000000000 = Inr \<lparr>dur_secs = 0, dur_nanos = 0\<rparr>"
  by (simp add: f64_eval)

lemma try_from_nan: "try_from_secs_f64 0x7FF8000000000000 = Inl OverflowOrNan"
  by (simp add: f64_eval)

lemma try_from_tenth: "try_from_secs_f64 0x3FB999999999999A = Inr \<lparr>dur_secs = 0, dur_nanos = 100000000\<rparr>"
  by (simp add: f64_eval)

end
