(* ===== verification/Float_Secs.thy ===== *)
theory Float_Secs
  imports Complex_Main Duration
begin

text \<open>
  \<^verbatim>\<open>Duration::as_secs_f64\<close>, which \<^verbatim>\<open>Session.rtt\<close> of \<^verbatim>\<open>src/session.rs\<close> returns: the arithmetic of
  \<^verbatim>\<open>f64\<close> on numbers that are not negative, rounded to nearest with ties to even, and its accuracy.
\<close>

section \<open>Rounding a fraction to a float\<close>

fun bit_length :: "nat \<Rightarrow> nat" where
  "bit_length n = (if n = 0 then 0 else Suc (bit_length (n div 2)))"

declare bit_length.simps [simp del]

text \<open>
  The biased exponent of \<open>a / b\<close>: the least \<open>e\<close> from 1 up with \<open>a / b < 2 ^ 53 * 2 ^ (e - 1075)\<close>. The
  lengths of \<open>a\<close> and \<open>b\<close> give it up to one.
\<close>

definition f64_fits :: "nat \<Rightarrow> nat \<Rightarrow> nat \<Rightarrow> bool" where
  "f64_fits a b e \<longleftrightarrow> a * 2 ^ (1075 - e) < 2 ^ 53 * (b * 2 ^ (e - 1075))"

definition f64_exponent :: "nat \<Rightarrow> nat \<Rightarrow> nat" where
  "f64_exponent a b =
     (let e = max 1 (1022 + bit_length a - bit_length b) in if f64_fits a b e then e else e + 1)"

text \<open>
  The float nearest to \<open>a / b\<close>, ties to the even one. A mantissa that is rounded up to \<open>2 ^ 53\<close>
  carries into the exponent; what is too large is the infinity.
\<close>

definition f64_round :: "nat \<Rightarrow> nat \<Rightarrow> f64" where
  "f64_round a b =
     (if a = 0 then 0
      else let e = f64_exponent a b;
               m = round_half_even (a * 2 ^ (1075 - e)) (b * 2 ^ (e - 1075))
           in of_nat (min ((e - 1) * 2 ^ 52 + m) (2047 * 2 ^ 52)))"

text \<open>\<^verbatim>\<open>as f64\<close>, \<^verbatim>\<open>+\<close> and \<^verbatim>\<open>/\<close> on finite numbers that are not negative, the divisor not zero.\<close>

definition f64_of_nat :: "nat \<Rightarrow> f64" where
  "f64_of_nat n = f64_round n 1"

definition f64_add :: "f64 \<Rightarrow> f64 \<Rightarrow> f64" where
  "f64_add x y = f64_round (f64_num x * f64_den y + f64_num y * f64_den x) (f64_den x * f64_den y)"

definition f64_div :: "f64 \<Rightarrow> f64 \<Rightarrow> f64" where
  "f64_div x y = f64_round (f64_num x * f64_den y) (f64_den x * f64_num y)"

text \<open>\<^verbatim>\<open>(self.secs as f64) + (self.nanos as f64) / (NANOS_PER_SEC as f64)\<close>.\<close>

definition as_secs_f64 :: "duration \<Rightarrow> f64" where
  "as_secs_f64 d = f64_add (f64_of_nat (unat (dur_secs d)))
     (f64_div (f64_of_nat (unat (dur_nanos d))) (f64_of_nat NANOS_PER_SEC))"

section \<open>The exponent\<close>

lemma bit_length_upper: "n < 2 ^ bit_length n"
proof (induction n rule: bit_length.induct)
  case (1 n)
  then show ?case by (cases "n = 0") (auto simp: bit_length.simps [of n])
qed

lemma bit_length_lower: "0 < n \<Longrightarrow> 2 ^ bit_length n \<le> 2 * n"
proof (induction n rule: bit_length.induct)
  case (1 n)
  show ?case
  proof (cases "n = 1")
    case False
    with 1 have "2 ^ bit_length (n div 2) \<le> 2 * (n div 2)" by simp
    with 1 show ?thesis by (simp add: bit_length.simps [of n])
  qed (simp add: bit_length.simps)
qed

text \<open>In real numbers: \<open>f64_unit e\<close> is the value of the last place at exponent \<open>e\<close>.\<close>

definition f64_unit :: "nat \<Rightarrow> real" where
  "f64_unit e = 2 ^ (e - 1075) / 2 ^ (1075 - e)"

lemma f64_unit_pos [simp]: "0 < f64_unit e"
  by (simp add: f64_unit_def)

lemma f64_unit_Suc: "f64_unit (Suc e) = 2 * f64_unit e"
proof (cases "e < 1075")
  case True
  then have "1075 - e = Suc (1075 - Suc e)" by simp
  with True show ?thesis by (simp add: f64_unit_def)
next
  case False
  then have "Suc e - 1075 = Suc (e - 1075)" by simp
  with False show ?thesis by (simp only: f64_unit_def) simp
qed

lemma f64_unit_add: "f64_unit (e + k) = 2 ^ k * f64_unit e"
  by (induction k) (simp_all add: f64_unit_Suc)

lemma f64_unit_mono: "e \<le> e' \<Longrightarrow> f64_unit e \<le> f64_unit e'"
  by (auto simp: le_iff_add f64_unit_add)

lemma scaled_ratio:
  assumes "0 < b"
  shows "real (a * 2 ^ (1075 - e)) / real (b * 2 ^ (e - 1075)) = real a / real b / f64_unit e"
  using assms by (simp add: f64_unit_def field_simps)

lemma f64_fits_iff: "0 < b \<Longrightarrow> f64_fits a b e \<longleftrightarrow> real a / real b < 2 ^ 53 * f64_unit e"
proof -
  assume b: "0 < b"
  have "f64_fits a b e \<longleftrightarrow> real (a * 2 ^ (1075 - e)) < 2 ^ 53 * real (b * 2 ^ (e - 1075))"
    unfolding f64_fits_def by (metis of_nat_less_iff of_nat_mult of_nat_numeral of_nat_power)
  also have "\<dots> \<longleftrightarrow> real (a * 2 ^ (1075 - e)) / real (b * 2 ^ (e - 1075)) < 2 ^ 53"
    using b by (simp add: divide_less_eq)
  also have "\<dots> \<longleftrightarrow> real a / real b < 2 ^ 53 * f64_unit e"
    unfolding scaled_ratio [OF b] by (rule pos_divide_less_eq) simp
  finally show ?thesis .
qed

text \<open>The exponent is the least that fits.\<close>

lemma bit_length_real: "real n < 2 ^ bit_length n" "0 < n \<Longrightarrow> 2 ^ bit_length n \<le> 2 * real n"
proof -
  show "real n < 2 ^ bit_length n"
    using bit_length_upper [of n] by (metis of_nat_less_iff of_nat_numeral of_nat_power)
  show "2 ^ bit_length n \<le> 2 * real n" if "0 < n"
    using bit_length_lower [OF that] by (metis of_nat_le_iff of_nat_mult of_nat_numeral of_nat_power)
qed

lemma ratio_bits:
  assumes "0 < a" "0 < b"
  shows "real a / real b < 2 * (2 ^ bit_length a / 2 ^ bit_length b)"
    and "2 ^ bit_length a / 2 ^ bit_length b \<le> 2 * (real a / real b)"
proof -
  have a: "real a < 2 ^ bit_length a" "2 ^ bit_length a \<le> 2 * real a"
    and b: "real b < 2 ^ bit_length b" "2 ^ bit_length b \<le> 2 * real b"
    using bit_length_real assms by simp_all
  have "real a / real b < 2 ^ bit_length a / real b"
    using a(1) assms(2) by (simp add: divide_strict_right_mono)
  also have "\<dots> \<le> 2 ^ bit_length a / (2 ^ bit_length b / 2)"
    using b(2) assms(2) by (intro divide_left_mono) simp_all
  finally show "real a / real b < 2 * (2 ^ bit_length a / 2 ^ bit_length b)" by (simp add: mult.commute)
  have "2 ^ bit_length a / 2 ^ bit_length b \<le> 2 * real a / 2 ^ bit_length b"
    using a(2) by (simp add: divide_right_mono)
  also have "\<dots> \<le> 2 * real a / real b"
    using b(1) assms by (intro divide_left_mono) simp_all
  finally show "2 ^ bit_length a / 2 ^ bit_length b \<le> 2 * (real a / real b)" by simp
qed

lemma unit_bits:
  "2 ^ la / 2 ^ lb \<le> 2 ^ 53 * f64_unit (max 1 (1022 + la - lb))"
  "lb < 1022 + la \<Longrightarrow> 2 ^ la / 2 ^ lb = 2 ^ 53 * f64_unit (max 1 (1022 + la - lb))"
proof -
  let ?e = "max 1 (1022 + la - lb)"
  have r: "2 ^ la = 2 ^ 53 * f64_unit (1022 + la)"
    by (simp only: f64_unit_add) (simp add: f64_unit_def)
  have l: "f64_unit (?e + lb) = 2 ^ lb * f64_unit ?e" by (rule f64_unit_add)
  have "f64_unit (1022 + la) \<le> f64_unit (?e + lb)" by (rule f64_unit_mono) auto
  with r l show "2 ^ la / 2 ^ lb \<le> 2 ^ 53 * f64_unit ?e" by (simp add: divide_le_eq mult.assoc mult.commute)
  assume "lb < 1022 + la"
  then have "?e + lb = 1022 + la" by simp
  with r l show "2 ^ la / 2 ^ lb = 2 ^ 53 * f64_unit ?e" by (simp add: divide_eq_eq mult.assoc mult.commute)
qed

lemma f64_exponent_fits:
  assumes "0 < a" "0 < b"
  shows "real a / real b < 2 ^ 53 * f64_unit (f64_exponent a b)"
    and "f64_exponent a b = 1 \<or> 2 ^ 52 * f64_unit (f64_exponent a b) \<le> real a / real b"
    and "0 < f64_exponent a b"
proof -
  let ?e = "max 1 (1022 + bit_length a - bit_length b)"
  note r = ratio_bits [OF assms] and u = unit_bits [where la = "bit_length a" and lb = "bit_length b"]
  have e: "f64_exponent a b = (if f64_fits a b ?e then ?e else Suc ?e)"
    by (simp add: f64_exponent_def Let_def)
  show "0 < f64_exponent a b" by (auto simp: e)
  show "real a / real b < 2 ^ 53 * f64_unit (f64_exponent a b)"
    using r(1) u(1) by (simp add: e f64_fits_iff [OF assms(2)] f64_unit_Suc)
  show "f64_exponent a b = 1 \<or> 2 ^ 52 * f64_unit (f64_exponent a b) \<le> real a / real b"
  proof (cases "f64_fits a b ?e")
    case True
    then show ?thesis using r(2) u(2) by (cases "bit_length b < 1022 + bit_length a") (simp_all add: e)
  next
    case False
    then show ?thesis by (simp add: e f64_fits_iff [OF assms(2)] f64_unit_Suc not_less)
  qed
qed

section \<open>The value of a float\<close>

definition f64_val :: "f64 \<Rightarrow> real" where
  "f64_val x = real (f64_num x) / real (f64_den x)"

lemma f64_val_unit: "f64_val x = real (f64_mant x) * f64_unit (max 1 (f64_exp x))"
proof -
  have "max 1 (f64_exp x) - 1075 = f64_exp x - 1075" by auto
  then show ?thesis by (simp add: f64_val_def f64_num_def f64_den_def f64_unit_def)
qed

lemma f64_val_0 [simp]: "f64_val 0 = 0"
  by (simp add: f64_val_def f64_num_def f64_mant_def f64_exp_def f64_frac_def)

lemma f64_fields:
  assumes "k < 2 ^ 52" "q < 2048"
  shows "f64_exp (of_nat (q * 2 ^ 52 + k)) = q" "f64_frac (of_nat (q * 2 ^ 52 + k)) = k"
    "\<not> f64_sign (of_nat (q * 2 ^ 52 + k))"
proof -
  have "q * 2 ^ 52 + k < 2 ^ 63" using assms by simp
  then have u: "unat (of_nat (q * 2 ^ 52 + k) :: f64) = q * 2 ^ 52 + k"
    by (simp only: unat_of_nat) simp
  have "(q * 2 ^ 52 + k) div 2 ^ 52 = q" "(q * 2 ^ 52 + k) mod 2 ^ 52 = k" using assms(1) by simp_all
  with assms u show "f64_exp (of_nat (q * 2 ^ 52 + k)) = q" "f64_frac (of_nat (q * 2 ^ 52 + k)) = k"
    unfolding f64_exp_def f64_frac_def by simp_all
  show "\<not> f64_sign (of_nat (q * 2 ^ 52 + k))"
    unfolding f64_sign_def u using \<open>q * 2 ^ 52 + k < 2 ^ 63\<close> by simp
qed

text \<open>The bits put together from an exponent and a mantissa, with the carry.\<close>

lemma f64_assemble:
  assumes "0 < e" "e < 2046" "m \<le> 2 ^ 53" "e = 1 \<or> 2 ^ 52 \<le> m"
  defines "x \<equiv> of_nat ((e - 1) * 2 ^ 52 + m) :: f64"
  shows "f64_val x = real m * f64_unit e \<and> \<not> f64_sign x \<and> f64_exp x \<le> e + 1"
proof -
  consider (sub) "m < 2 ^ 52" "e = 1" | (norm) "2 ^ 52 \<le> m" "m < 2 ^ 53" | (carry) "m = 2 ^ 53"
    using assms(3,4) by linarith
  then show ?thesis
  proof cases
    case sub
    with f64_fields [of m 0] show ?thesis unfolding x_def by (simp add: f64_val_unit f64_mant_def)
  next
    case norm
    define k where "k = m - 2 ^ 52"
    from norm have k: "m = 2 ^ 52 + k" "k < 2 ^ 52" by (auto simp: k_def)
    have "x = of_nat (e * 2 ^ 52 + k)" unfolding x_def using assms(1) by (cases e) (simp_all add: k(1))
    with f64_fields [OF k(2), of e] assms(1,2) show ?thesis by (simp add: f64_val_unit f64_mant_def k(1))
  next
    case carry
    have "x = of_nat ((e + 1) * 2 ^ 52 + 0)" unfolding x_def using assms(1) by (cases e) (simp_all add: carry)
    with f64_fields [of 0 "e + 1"] assms(1,2) show ?thesis
      by (simp add: f64_val_unit f64_mant_def carry f64_unit_Suc)
  qed
qed

lemma round_half_even_ge: "0 < b \<Longrightarrow> k * b \<le> a \<Longrightarrow> k \<le> round_half_even a b"
  by (auto simp: round_half_even_def Let_def less_eq_div_iff_mult_less_eq intro: le_SucI)

lemma round_half_even_real:
  assumes "0 < b"
  shows "\<bar>real (round_half_even a b) - real a / real b\<bar> \<le> 1 / 2"
proof -
  let ?r = "real (round_half_even a b)"
  have "2 * (?r * real b) \<le> 2 * real a + real b" "2 * real a \<le> 2 * (?r * real b) + real b"
    using round_half_even_near [OF assms, of a] 
    by (metis of_nat_add of_nat_le_iff of_nat_mult of_nat_numeral)+
  then have "?r \<le> real a / real b + 1 / 2" "real a / real b \<le> ?r + 1 / 2"
    using assms by (simp_all add: field_simps)
  then show ?thesis by linarith
qed

text \<open>
  Rounding is accurate to half a unit in the last place, and a number below \<open>2 ^ k\<close> has units of at
  most \<open>2 ^ k / 2 ^ 53\<close>.
\<close>

lemma f64_exponent_le:
  assumes "0 < a" "0 < b" "real a / real b < 2 ^ k"
  shows "f64_exponent a b \<le> 1022 + k"
proof (rule ccontr)
  assume n: "\<not> ?thesis"
  then have "2 ^ 52 * f64_unit (f64_exponent a b) \<le> real a / real b"
    using f64_exponent_fits(2) [OF assms(1,2)] by auto
  moreover have "2 ^ 52 * f64_unit (1023 + k) \<le> 2 ^ 52 * f64_unit (f64_exponent a b)"
    using n by (intro mult_left_mono f64_unit_mono) simp_all
  moreover have "2 ^ 52 * f64_unit (1023 + k) = 2 ^ k"
    by (simp only: f64_unit_add) (simp add: f64_unit_def)
  ultimately show False using assms(3) by linarith
qed

lemma f64_mantissa:
  assumes "0 < a" "0 < b"
  defines "e \<equiv> f64_exponent a b"
  defines "m \<equiv> round_half_even (a * 2 ^ (1075 - e)) (b * 2 ^ (e - 1075))"
  shows "m \<le> 2 ^ 53" and "e = 1 \<or> 2 ^ 52 \<le> m" and "\<bar>real m * f64_unit e - real a / real b\<bar> \<le> f64_unit e / 2"
proof -
  define A where "A = a * 2 ^ (1075 - e)"
  define B where "B = b * 2 ^ (e - 1075)"
  have m: "m = round_half_even A B" by (simp add: m_def A_def B_def)
  have B: "0 < B" using assms(2) by (simp add: B_def)
  have u: "real a / real b = real A / real B * f64_unit e"
    unfolding A_def B_def scaled_ratio [OF assms(2)] by (simp add: less_imp_neq [OF f64_unit_pos, symmetric])
  note fits = f64_exponent_fits [OF assms(1,2), folded e_def]
  have "A < 2 ^ 53 * B"
    using fits(1) by (simp only: f64_fits_iff [OF assms(2), symmetric] f64_fits_def A_def B_def)
  then show "m \<le> 2 ^ 53" using B unfolding m by (intro round_half_even_le) simp_all
  show "e = 1 \<or> 2 ^ 52 \<le> m"
  proof (cases "e = 1")
    case False
    with fits(2) have "2 ^ 52 \<le> real A / real B"
      by (simp only: u mult_le_cancel_right_pos [OF f64_unit_pos]) simp
    then have "2 ^ 52 * real B \<le> real A" using B by (simp add: pos_le_divide_eq)
    then have "2 ^ 52 * B \<le> A" by (metis of_nat_le_iff of_nat_mult of_nat_numeral of_nat_power)
    with B show ?thesis unfolding m by (intro disjI2 round_half_even_ge)
  qed simp
  have "\<bar>real m * f64_unit e - real a / real b\<bar> = \<bar>real m - real A / real B\<bar> * f64_unit e"
    unfolding u left_diff_distrib [symmetric] by (simp only: abs_mult abs_of_pos [OF f64_unit_pos])
  also have "\<dots> \<le> 1 / 2 * f64_unit e"
    using round_half_even_real [OF B, of A] unfolding m by (intro mult_right_mono) (simp_all add: less_imp_le)
  finally show "\<bar>real m * f64_unit e - real a / real b\<bar> \<le> f64_unit e / 2" by simp
qed

lemma f64_round_near:
  assumes "0 < a" "0 < b" "f64_exponent a b < 2046"
  defines "e \<equiv> f64_exponent a b"
  shows "f64_val (f64_round a b) =
      real (round_half_even (a * 2 ^ (1075 - e)) (b * 2 ^ (e - 1075))) * f64_unit e"
    and "\<bar>f64_val (f64_round a b) - real a / real b\<bar> \<le> f64_unit e / 2"
    and "\<not> f64_sign (f64_round a b)" and "f64_exp (f64_round a b) \<le> e + 1"
proof -
  let ?m = "round_half_even (a * 2 ^ (1075 - e)) (b * 2 ^ (e - 1075))"
  note m = f64_mantissa [OF assms(1,2), folded e_def]
  have "(e - 1) * 2 ^ 52 \<le> 2045 * 2 ^ 52" using assms(3) by (intro mult_le_mono1) (simp add: e_def)
  with m(1) have "(e - 1) * 2 ^ 52 + ?m \<le> 2047 * 2 ^ 52" by simp
  moreover have "a \<noteq> 0" using assms(1) by simp
  ultimately have r: "f64_round a b = of_nat ((e - 1) * 2 ^ 52 + ?m)"
    by (simp only: f64_round_def Let_def min_absorb1 if_False e_def)
  have x: "f64_val (f64_round a b) = real ?m * f64_unit e" "\<not> f64_sign (f64_round a b)"
    "f64_exp (f64_round a b) \<le> e + 1"
    unfolding r using f64_assemble [OF f64_exponent_fits(3) [OF assms(1,2)] assms(3), folded e_def, OF m(1,2)] by blast+
  then show "f64_val (f64_round a b) = real ?m * f64_unit e" "\<not> f64_sign (f64_round a b)"
    "f64_exp (f64_round a b) \<le> e + 1" by blast+
  show "\<bar>f64_val (f64_round a b) - real a / real b\<bar> \<le> f64_unit e / 2"
    unfolding x(1) by (rule m(3))
qed

text \<open>The same by magnitude: below \<open>2 ^ k\<close> the error is at most \<open>2 ^ k / 2 ^ 54\<close>; zero is exact.\<close>

lemma f64_round_below:
  assumes "0 < b" "real a / real b < 2 ^ k" "k < 64"
  shows "\<bar>f64_val (f64_round a b) - real a / real b\<bar> \<le> 2 ^ k / 2 ^ 54"
    and "\<not> f64_sign (f64_round a b)" and "f64_exp (f64_round a b) \<le> 1023 + k"
proof -
  have "\<bar>f64_val (f64_round a b) - real a / real b\<bar> \<le> 2 ^ k / 2 ^ 54 \<and>
    \<not> f64_sign (f64_round a b) \<and> f64_exp (f64_round a b) \<le> 1023 + k"
  proof (cases "a = 0")
    case True
    then show ?thesis
      by (simp add: f64_round_def f64_val_def f64_num_def f64_mant_def f64_sign_def f64_exp_def f64_frac_def)
  next
    case False
    then have e: "f64_exponent a b \<le> 1022 + k" using assms by (intro f64_exponent_le) simp_all
    have "f64_unit (f64_exponent a b) \<le> f64_unit (1022 + k)" using e by (rule f64_unit_mono)
    also have "\<dots> = 2 ^ k / 2 ^ 53" by (simp only: f64_unit_add) (simp add: f64_unit_def)
    finally have "f64_unit (f64_exponent a b) / 2 \<le> 2 ^ k / 2 ^ 54" by simp
    with f64_round_near [of a b] e False assms show ?thesis by fastforce
  qed
  then show "\<bar>f64_val (f64_round a b) - real a / real b\<bar> \<le> 2 ^ k / 2 ^ 54"
    "\<not> f64_sign (f64_round a b)" "f64_exp (f64_round a b) \<le> 1023 + k" by blast+
qed

section \<open>Durations in seconds\<close>

text \<open>Whole numbers below \<open>2 ^ 53\<close> are exact.\<close>

lemma f64_of_nat_exact:
  assumes "n < 2 ^ 53"
  shows "f64_val (f64_of_nat n) = real n" and "\<not> f64_sign (f64_of_nat n)"
proof -
  have lt: "real n / real 1 < 2 ^ 53"
    using assms by (metis div_by_1 of_nat_1 of_nat_less_iff of_nat_numeral of_nat_power)
  then show "\<not> f64_sign (f64_of_nat n)"
    unfolding f64_of_nat_def by (intro f64_round_below(2) [OF _ lt]) simp_all
  show "f64_val (f64_of_nat n) = real n"
  proof (cases "n = 0")
    case True
    then show ?thesis by (simp add: f64_of_nat_def f64_round_def)
  next
    case False
    define e where "e = f64_exponent n 1"
    have e: "e \<le> 1075" using f64_exponent_le [of n 1 53] lt False by (simp add: e_def)
    have "f64_val (f64_of_nat n) = real (round_half_even (n * 2 ^ (1075 - e)) (1 * 2 ^ (e - 1075))) * f64_unit e"
      unfolding f64_of_nat_def using f64_round_near(1) [of n 1, folded e_def] e False by simp
    also have "\<dots> = real (n * 2 ^ (1075 - e)) * f64_unit e"
      using e round_half_even_exact [of 1 "n * 2 ^ (1075 - e)"] by simp
    also have "\<dots> = real n" using e by (simp add: f64_unit_def)
    finally show ?thesis .
  qed
qed

lemma round_half_even_unique:
  assumes "0 < b" "\<bar>real a / real b - real n\<bar> < 1 / 2"
  shows "round_half_even a b = n"
proof -
  have "\<bar>real (round_half_even a b) - real n\<bar> < 1"
    using round_half_even_real [OF assms(1), of a] assms(2) by linarith
  then show ?thesis by linarith
qed

lemma f64_ratios:
  "real (f64_num x * f64_den y + f64_num y * f64_den x) / real (f64_den x * f64_den y) = f64_val x + f64_val y"
  "real (f64_num x * f64_den y) / real (f64_den x * f64_num y) = f64_val x / f64_val y"
  by (simp_all add: f64_val_def add_divide_distrib)

lemma f64_add_near:
  assumes "f64_val x + f64_val y < 2 ^ k" "k < 64"
  shows "\<bar>f64_val (f64_add x y) - (f64_val x + f64_val y)\<bar> \<le> 2 ^ k / 2 ^ 54"
    and "\<not> f64_sign (f64_add x y)" and "f64_exp (f64_add x y) \<le> 1023 + k"
  using assms unfolding f64_add_def f64_ratios(1) [symmetric] by (rule f64_round_below [rotated]; simp)+

lemma f64_div_near:
  assumes "0 < f64_val y" "f64_val x / f64_val y < 2 ^ k" "k < 64"
  shows "\<bar>f64_val (f64_div x y) - f64_val x / f64_val y\<bar> \<le> 2 ^ k / 2 ^ 54"
proof -
  have "0 < f64_num y" using assms(1) by (cases "f64_num y") (simp_all add: f64_val_def)
  with assms(2,3) show ?thesis
    unfolding f64_div_def f64_ratios(2) [symmetric] by (intro f64_round_below(1)) simp_all
qed

text \<open>
  A duration below \<open>2 ^ 23\<close> seconds is given to within \<open>2 ^ -31 + 2 ^ -54\<close> seconds, which is less than
  half a nanosecond.
\<close>

lemma as_secs_f64_near:
  assumes "unat (dur_secs d) < 2 ^ 23" "unat (dur_nanos d) < NANOS_PER_SEC"
  shows "\<bar>f64_val (as_secs_f64 d) - real (as_nanos d) / real NANOS_PER_SEC\<bar> \<le> 1 / 2 ^ 31 + 1 / 2 ^ 54"
    and "\<not> f64_sign (as_secs_f64 d)" and "f64_exp (as_secs_f64 d) < 1087"
proof -
  define s where "s = unat (dur_secs d)"
  define n where "n = unat (dur_nanos d)"
  let ?y = "f64_div (f64_of_nat n) (f64_of_nat NANOS_PER_SEC)"
  have lim: "s < 2 ^ 23" "n < 10 ^ 9" using assms by (simp_all add: s_def n_def NANOS_PER_SEC_def)
  then have v: "f64_val (f64_of_nat s) = real s" "f64_val (f64_of_nat n) = real n"
    "f64_val (f64_of_nat NANOS_PER_SEC) = 10 ^ 9"
    using f64_of_nat_exact(1) [of s] f64_of_nat_exact(1) [of n] f64_of_nat_exact(1) [of NANOS_PER_SEC]
    by (simp_all add: NANOS_PER_SEC_def)
  from lim have b: "real n \<le> 10 ^ 9 - 1" "real s + 1 \<le> 2 ^ 23" by simp_all
  have y: "\<bar>f64_val ?y - real n / 10 ^ 9\<bar> \<le> 1 / 2 ^ 54"
    using f64_div_near [of "f64_of_nat NANOS_PER_SEC" "f64_of_nat n" 0] b by (simp add: v)
  then have "f64_val ?y \<le> real n / 10 ^ 9 + 1 / 2 ^ 54" by (simp only: abs_le_iff) linarith
  moreover have "real n / 10 ^ 9 \<le> (10 ^ 9 - 1) / 10 ^ 9" using b(1) by (rule divide_right_mono) simp
  moreover have "(10 ^ 9 - 1) / 10 ^ 9 + 1 / 2 ^ 54 < (1 :: real)" by simp
  ultimately have lt: "f64_val (f64_of_nat s) + f64_val ?y < 2 ^ 23" using b(2) unfolding v by linarith
  have k: "(23 :: nat) < 64" by simp
  note z = f64_add_near [OF lt k, unfolded s_def n_def, folded as_secs_f64_def, folded s_def n_def]
  have "real (as_nanos d) / real NANOS_PER_SEC = real s + real n / 10 ^ 9"
    unfolding as_nanos_def s_def [symmetric] n_def [symmetric]
    by (simp add: NANOS_PER_SEC_def add_divide_distrib)
  moreover have "(2 :: real) ^ 23 / 2 ^ 54 = 1 / 2 ^ 31" by simp
  ultimately show "\<bar>f64_val (as_secs_f64 d) - real (as_nanos d) / real NANOS_PER_SEC\<bar> \<le> 1 / 2 ^ 31 + 1 / 2 ^ 54"
    using z(1) [unfolded v] y by linarith
  show "\<not> f64_sign (as_secs_f64 d)" "f64_exp (as_secs_f64 d) < 1087" using z(2,3) by simp_all
qed

lemma as_secs_f64_roundtrip:
  assumes "unat (dur_secs d) < 2 ^ 23" "unat (dur_nanos d) < NANOS_PER_SEC"
  shows "try_from_secs_f64 (as_secs_f64 d) = Inr d"
proof -
  let ?x = "as_secs_f64 d"
  note x = as_secs_f64_near [OF assms]
  have "real (f64_num ?x * NANOS_PER_SEC) / real (f64_den ?x) = f64_val ?x * real NANOS_PER_SEC"
    by (simp add: f64_val_def)
  moreover have "\<bar>f64_val ?x * real NANOS_PER_SEC - real (as_nanos d)\<bar> < 1 / 2"
    using x(1) by (simp add: NANOS_PER_SEC_def abs_le_iff abs_less_iff field_simps)
  ultimately have "round_half_even (f64_num ?x * NANOS_PER_SEC) (f64_den ?x) = as_nanos d"
    by (intro round_half_even_unique) simp_all
  moreover have "as_nanos d div NANOS_PER_SEC = unat (dur_secs d)" "as_nanos d mod NANOS_PER_SEC = unat (dur_nanos d)"
    using assms(2) by (simp_all add: as_nanos_def NANOS_PER_SEC_def)
  ultimately show ?thesis using x(2,3) by (simp add: try_from_secs_f64_def f64_negative_def Let_def)
qed

end
