(* ===== verification/Session.thy ===== *)
theory Session
  imports Send_Stream Recv_Stream Addr_Roundtrip Float_Secs
begin

text \<open>
  \<^verbatim>\<open>src/session.rs\<close>. The session of \<^verbatim>\<open>web_transport_quinn\<close> is third-party code: a method is the
  sequence of calls it makes on it and what it returns for the answer of the last one. All that
  is used of a QUIC stream a call hands out is the priority \<^verbatim>\<open>SendStream::new\<close> asks for.
\<close>

section \<open>Calls and answers\<close>

datatype session_call =
    SCall_open_bi | SCall_open_uni | SCall_accept_bi | SCall_accept_uni
  | SCall_send_datagram bytes | SCall_read_datagram
  | SCall_close u32 bytes | SCall_closed
  | SCall_close_reason | SCall_max_datagram_size | SCall_remote_address | SCall_rtt

datatype 'x session_resp =
    SResp_bi "'x session_error + (unit + i32)"
  | SResp_uni_send "'x session_error + (unit + i32)"
  | SResp_uni_recv "'x session_error + unit"
  | SResp_unit "'x session_error + unit"
  | SResp_bytes "'x session_error + bytes"
  | SResp_closed "'x session_error"
  | SResp_void
  | SResp_reason "'x session_error option"
  | SResp_size usize
  | SResp_addr socket_addr
  | SResp_duration duration

datatype session_method =
    SM_aexit | SM_open_bi | SM_open_uni | SM_accept_bi | SM_accept_uni
  | SM_send_datagram bytes | SM_receive_datagram | SM_close u32 string | SM_wait_closed
  | SM_close_reason | SM_max_datagram_size | SM_remote_address | SM_rtt

datatype ('mx, 'tok) session_val =
    SV_None
  | SV_bytes bytes
  | SV_bi "('mx, 'tok) send_stream" "('mx, 'tok) recv_stream"
  | SV_send "('mx, 'tok) send_stream"
  | SV_recv "('mx, 'tok) recv_stream"
  | SV_err py_err
  | SV_int int
  | SV_addr string u16
  | SV_float f64

section \<open>The methods\<close>

text \<open>The calls a method makes, in order.\<close>

fun session_calls :: "session_method \<Rightarrow> session_call list" where
  "session_calls SM_aexit = [SCall_close 0 [], SCall_closed]"
| "session_calls SM_open_bi = [SCall_open_bi]"
| "session_calls SM_open_uni = [SCall_open_uni]"
| "session_calls SM_accept_bi = [SCall_accept_bi]"
| "session_calls SM_accept_uni = [SCall_accept_uni]"
| "session_calls (SM_send_datagram data) = [SCall_send_datagram data]"
| "session_calls SM_receive_datagram = [SCall_read_datagram]"
| "session_calls (SM_close code reason) = [SCall_close code (as_bytes reason)]"
| "session_calls SM_wait_closed = [SCall_closed]"
| "session_calls SM_close_reason = [SCall_close_reason]"
| "session_calls SM_max_datagram_size = [SCall_max_datagram_size]"
| "session_calls SM_remote_address = [SCall_remote_address]"
| "session_calls SM_rtt = [SCall_rtt]"

text \<open>
  What a method returns for the answer of its last call; \<open>None\<close> for the answer of another call.
\<close>

definition session_ret :: "('mx, 'tok) tokio \<Rightarrow> 'x ext \<Rightarrow> session_method \<Rightarrow> 'x session_resp \<Rightarrow>
    (py_err + ('mx, 'tok) session_val) option" where
  "session_ret T X m a =
     (case m of
        SM_aexit \<Rightarrow>
          (case a of SResp_closed e \<Rightarrow>
             Some (Inr SV_None)
           | _ \<Rightarrow> None)
      | SM_open_bi \<Rightarrow>
          (case a of SResp_bi r \<Rightarrow>
             Some (map_ok (\<lambda>p. SV_bi (send_new T p) (recv_new T)) (map_err (map_session_error X) r))
           | _ \<Rightarrow> None)
      | SM_open_uni \<Rightarrow>
          (case a of SResp_uni_send r \<Rightarrow>
             Some (map_ok (\<lambda>p. SV_send (send_new T p)) (map_err (map_session_error X) r))
           | _ \<Rightarrow> None)
      | SM_accept_bi \<Rightarrow>
          (case a of SResp_bi r \<Rightarrow>
             Some (map_ok (\<lambda>p. SV_bi (send_new T p) (recv_new T)) (map_err (map_session_error X) r))
           | _ \<Rightarrow> None)
      | SM_accept_uni \<Rightarrow>
          (case a of SResp_uni_recv r \<Rightarrow>
             Some (map_ok (\<lambda>_. SV_recv (recv_new T)) (map_err (map_session_error X) r))
           | _ \<Rightarrow> None)
      | SM_send_datagram data \<Rightarrow>
          (case a of SResp_unit r \<Rightarrow>
             Some (map_ok (\<lambda>_. SV_None) (map_err (map_session_error X) r))
           | _ \<Rightarrow> None)
      | SM_receive_datagram \<Rightarrow>
          (case a of SResp_bytes r \<Rightarrow>
             Some (map_ok SV_bytes (map_err (map_session_error X) r))
           | _ \<Rightarrow> None)
      | SM_close code reason \<Rightarrow>
          (case a of SResp_void \<Rightarrow>
             Some (Inr SV_None)
           | _ \<Rightarrow> None)
      | SM_wait_closed \<Rightarrow>
          (case a of SResp_closed e \<Rightarrow>
             Some (Inr SV_None)
           | _ \<Rightarrow> None)
      | SM_close_reason \<Rightarrow>
          (case a of SResp_reason r \<Rightarrow>
             Some (Inr (case r of None \<Rightarrow> SV_None | Some err \<Rightarrow> SV_err (map_session_error X err)))
           | _ \<Rightarrow> None)
      | SM_max_datagram_size \<Rightarrow>
          (case a of SResp_size n \<Rightarrow>
             Some (Inr (SV_int (uint n)))
           | _ \<Rightarrow> None)
      | SM_remote_address \<Rightarrow>
          (case a of SResp_addr addr \<Rightarrow>
             Some (Inr (SV_addr (show_ip (addr_ip addr)) (addr_port addr)))
           | _ \<Rightarrow> None)
      | SM_rtt \<Rightarrow>
          (case a of SResp_duration d \<Rightarrow>
             Some (Inr (SV_float (as_secs_f64 d)))
           | _ \<Rightarrow> None))"

section \<open>Properties\<close>

lemma session_ret_error:
  "session_ret T X m a = Some (Inl e) \<Longrightarrow> \<exists>se. e = map_session_error X se"
  by (cases m; cases a) (auto simp: session_ret_def map_err_eq_Inl split: option.splits)

text \<open>
  What a session method raises. Whatever the session answers, an exception derives from
  WebTransportError and carries its declared attributes, and leaving an \<^verbatim>\<open>async with\<close> block,
  closing and waiting for the close never raise.
\<close>

lemma session_errors:
  assumes "session_ret T X m a = Some (Inl e)"
  shows "catches WebTransportError e \<and> err_wf e \<and>
    m \<in> {SM_open_bi, SM_open_uni, SM_accept_bi, SM_accept_uni, SM_receive_datagram} \<union> range SM_send_datagram"
proof -
  from session_ret_error [OF assms] obtain se where e: "e = map_session_error X se" ..
  have "m \<in> {SM_open_bi, SM_open_uni, SM_accept_bi, SM_accept_uni, SM_receive_datagram} \<union> range SM_send_datagram"
    using assms by (cases m; cases a) (auto simp: session_ret_def split: option.splits)
  with e sess.caught_by_bases [of WebTransportError X se] sess.emap_wf [of X se] show ?thesis by simp
qed

text \<open>
  C18: the address of the peer is reported faithfully. The host and port that \<^verbatim>\<open>remote_address\<close> returns,
  written as \<^verbatim>\<open>host:port\<close> with brackets around an IPv6 host, parse back to the peer's address, for
  every IPv4 address and every IPv6 address, compressed and mapped ones included; only the
  flow information and the scope id of an IPv6 address are lost.
\<close>

theorem remote_address_roundtrip:
  assumes "addr_wf addr"
  shows "\<exists>host port. session_ret T X SM_remote_address (SResp_addr addr) = Some (Inr (SV_addr host port)) \<and>
    parse_socket_addr (host_port addr host port) = Inr (ip_and_port addr)"
  using parse_host_port [OF assms] by (simp add: session_ret_def)

theorem remote_address_roundtrip_witness:
  "\<exists>host port. session_ret tokio_bits ext_ref SM_remote_address
      (SResp_addr (SocketAddrV6 [0x2001, 0xDB8, 0, 0, 1, 0, 0, 1] 7 3 443)) = Some (Inr (SV_addr host port)) \<and>
    parse_socket_addr (''['' @ host @ '']:'' @ show_nat (unat port)) =
      Inr (SocketAddrV6 [0x2001, 0xDB8, 0, 0, 1, 0, 0, 1] 0 0 443)"
  using remote_address_roundtrip [of "SocketAddrV6 [0x2001, 0xDB8, 0, 0, 1, 0, 0, 1] 7 3 443" tokio_bits ext_ref]
  by (simp only: addr_wf.simps host_port.simps ip_and_port.simps) simp

text \<open>
  C20: the round-trip time loses nothing. For an estimate below \<open>2 ^ 23\<close> seconds (97 days), the float
  that \<^verbatim>\<open>rtt\<close> returns is finite, not negative, and determines the estimate to the nanosecond:
  converting it to a duration again gives the same one.
\<close>

theorem rtt_roundtrip:
  assumes "unat (dur_secs d) < 2 ^ 23" "unat (dur_nanos d) < NANOS_PER_SEC"
  shows "\<exists>x. session_ret T X SM_rtt (SResp_duration d) = Some (Inr (SV_float x)) \<and>
    \<not> f64_negative x \<and> f64_exp x < 1087 \<and> try_from_secs_f64 x = Inr d"
  using as_secs_f64_near [OF assms] as_secs_f64_roundtrip [OF assms]
  by (simp add: session_ret_def f64_negative_def)

theorem rtt_roundtrip_witness:
  "\<exists>x. session_ret tokio_bits ext_ref SM_rtt (SResp_duration \<lparr>dur_secs = 0, dur_nanos = 33333333\<rparr>) =
      Some (Inr (SV_float x)) \<and> try_from_secs_f64 x = Inr \<lparr>dur_secs = 0, dur_nanos = 33333333\<rparr>"
  using rtt_roundtrip [of "\<lparr>dur_secs = 0, dur_nanos = 33333333\<rparr>" tokio_bits ext_ref]
  by (auto simp: NANOS_PER_SEC_def)

end
