(* ===== verification/Session_Streams.thy ===== *)
theory Session_Streams
  imports Session Send_Refinement Recv_Refinement
begin

text \<open>
  A session and its streams put together: which methods of \<^verbatim>\<open>src/session.rs\<close> hand out which streams, and
  how the streams they hand out behave.
\<close>

section \<open>The streams in a result\<close>

fun session_sends :: "('mx, 'tok) session_val \<Rightarrow> ('mx, 'tok) send_stream list" where
  "session_sends (SV_bi ss rs) = [ss]"
| "session_sends (SV_send ss) = [ss]"
| "session_sends _ = []"

fun session_recvs :: "('mx, 'tok) session_val \<Rightarrow> ('mx, 'tok) recv_stream list" where
  "session_recvs (SV_bi ss rs) = [rs]"
| "session_recvs (SV_recv rs) = [rs]"
| "session_recvs _ = []"

text \<open>The priority of the QUIC stream in an answer; a stream that cannot tell it counts as 0.\<close>

fun opened_priority :: "'x session_resp \<Rightarrow> i32 option" where
  "opened_priority (SResp_bi (Inr p)) = Some (case p of Inl _ \<Rightarrow> 0 | Inr v \<Rightarrow> v)"
| "opened_priority (SResp_uni_send (Inr p)) = Some (case p of Inl _ \<Rightarrow> 0 | Inr v \<Rightarrow> v)"
| "opened_priority _ = None"

text \<open>A stream no method has been called on.\<close>

definition send_unused :: "('mx, 'tok) send_stream \<Rightarrow> ('mx, 'tok) send_sys" where
  "send_unused ss = \<lparr>sobj = ss, stask = (\<lambda>_. S_Idle), scalls = []\<rparr>"

definition recv_unused :: "('mx, 'tok) recv_stream \<Rightarrow> ('mx, 'tok) recv_sys" where
  "recv_unused rs = \<lparr>robj = rs, rtask = (\<lambda>_. V_Idle), rcalls = []\<rparr>"

section \<open>What a session hands out\<close>

lemma session_ret_streams:
  assumes "session_ret T X m a = Some (Inr v)"
  shows "length (session_sends v) = (if m \<in> {SM_open_bi, SM_accept_bi, SM_open_uni} then 1 else 0)"
    and "length (session_recvs v) = (if m \<in> {SM_open_bi, SM_accept_bi, SM_accept_uni} then 1 else 0)"
    and "ss \<in> set (session_sends v) \<Longrightarrow> \<exists>p. ss = send_new T p \<and>
      opened_priority a = Some (case p of Inl _ \<Rightarrow> 0 | Inr n \<Rightarrow> n)"
    and "rs \<in> set (session_recvs v) \<Longrightarrow> rs = recv_new T"
  using assms by (cases m; cases a; auto simp: session_ret_def map_ok_eq_Inr split: option.splits)+

lemma send_new_behaves:
  assumes ok: "tokio_ok T" and pr: "prio = (case p of Inl _ \<Rightarrow> 0 | Inr n \<Rightarrow> n)"
  shows "(\<exists>t. sequential (send_step T X) Spawn send_mine send_result (send_unused (send_new T p)) k t \<and>
      send_abs_of T t = b \<and> scalls t = cs) \<longleftrightarrow>
    spec_trace (send_spec X) \<lparr>sa_closed = False, sa_code = 0, sa_priority = prio, sa_synced = prio\<rparr> k b cs"
proof -
  let ?s = "send_unused (send_new T p)"
  have rest: "send_rest T ?s" and calls: "scalls ?s = []"
    and abs: "send_abs_of T ?s = \<lparr>sa_closed = False, sa_code = 0, sa_priority = prio, sa_synced = prio\<rparr>"
    using tokio_new [OF ok]
    by (simp_all add: pr send_rest_def send_unused_def send_new_def send_abs_of_def obj_abs_def Let_def)
  show ?thesis
    using snd.sequential_sound [OF _ ok rest] snd.sequential_complete [OF _ ok rest abs] calls abs by fastforce
qed

lemma recv_new_behaves:
  assumes ok: "tokio_ok T"
  shows "(\<exists>t. sequential (recv_step T X) RSpawn recv_mine recv_result (recv_unused (recv_new T)) k t \<and>
      recv_abs_of T t = b \<and> rcalls t = cs) \<longleftrightarrow>
    spec_trace (recv_spec X) \<lparr>ra_closed = False, ra_code = 0, ra_eof = False\<rparr> k b cs"
proof -
  let ?s = "recv_unused (recv_new T)"
  have rest: "recv_rest T ?s" and calls: "rcalls ?s = []"
    and abs: "recv_abs_of T ?s = \<lparr>ra_closed = False, ra_code = 0, ra_eof = False\<rparr>"
    using tokio_new [OF ok]
    by (simp_all add: recv_rest_def recv_unused_def recv_new_def recv_abs_of_def robj_abs_def)
  show ?thesis
    using rcv.sequential_sound [OF _ ok rest] rcv.sequential_complete [OF _ ok rest abs] calls abs by fastforce
qed

text \<open>
  C38: the streams a session hands out. Opening or accepting a bidirectional stream gives one send and
  one receive stream, opening a unidirectional one a send stream, accepting one a receive stream, and
  no other method gives any. On each of them, the methods that are called one after the other have
  exactly the results, calls and effects of an abstract stream that is open, has the QUIC stream's
  priority already pushed, and has not reached its end: no frame is sent and no priority is set before
  a method asks for it.
\<close>

theorem session_streams_fresh:
  assumes "tokio_ok T" "session_ret T X m a = Some (Inr v)"
  shows "length (session_sends v) = (if m \<in> {SM_open_bi, SM_accept_bi, SM_open_uni} then 1 else 0) \<and>
    length (session_recvs v) = (if m \<in> {SM_open_bi, SM_accept_bi, SM_accept_uni} then 1 else 0) \<and>
    (\<forall>ss \<in> set (session_sends v). \<exists>prio. opened_priority a = Some prio \<and>
      (\<forall>k b cs. (\<exists>t. sequential (send_step T X) Spawn send_mine send_result (send_unused ss) k t \<and>
          send_abs_of T t = b \<and> scalls t = cs) \<longleftrightarrow>
        spec_trace (send_spec X) \<lparr>sa_closed = False, sa_code = 0, sa_priority = prio, sa_synced = prio\<rparr> k b cs)) \<and>
    (\<forall>rs \<in> set (session_recvs v). \<forall>k b cs.
      (\<exists>t. sequential (recv_step T X) RSpawn recv_mine recv_result (recv_unused rs) k t \<and>
          recv_abs_of T t = b \<and> rcalls t = cs) \<longleftrightarrow>
        spec_trace (recv_spec X) \<lparr>ra_closed = False, ra_code = 0, ra_eof = False\<rparr> k b cs)"
proof (intro conjI ballI allI)
  fix ss
  assume "ss \<in> set (session_sends v)"
  then obtain p where p: "ss = send_new T p" "opened_priority a = Some (case p of Inl _ \<Rightarrow> 0 | Inr n \<Rightarrow> n)"
    using session_ret_streams(3) [OF assms(2)] by blast
  show "\<exists>prio. opened_priority a = Some prio \<and>
      (\<forall>k b cs. (\<exists>t. sequential (send_step T X) Spawn send_mine send_result (send_unused ss) k t \<and>
          send_abs_of T t = b \<and> scalls t = cs) \<longleftrightarrow>
        spec_trace (send_spec X) \<lparr>sa_closed = False, sa_code = 0, sa_priority = prio, sa_synced = prio\<rparr> k b cs)"
    unfolding p(1) using p(2) send_new_behaves [OF assms(1) refl] by blast
next
  fix rs k b cs
  assume "rs \<in> set (session_recvs v)"
  then have "rs = recv_new T" by (rule session_ret_streams(4) [OF assms(2)])
  then show "(\<exists>t. sequential (recv_step T X) RSpawn recv_mine recv_result (recv_unused rs) k t \<and>
          recv_abs_of T t = b \<and> rcalls t = cs) \<longleftrightarrow>
        spec_trace (recv_spec X) \<lparr>ra_closed = False, ra_code = 0, ra_eof = False\<rparr> k b cs"
    using recv_new_behaves [OF assms(1)] by simp
qed (rule session_ret_streams [OF assms(2)])+

theorem session_streams_fresh_witness:
  "\<exists>ss t. session_ret tokio_bits ext_ref SM_open_uni (SResp_uni_send (Inr (Inr 5))) = Some (Inr (SV_send ss)) \<and>
    sequential (send_step tokio_bits ext_ref) Spawn send_mine send_result (send_unused ss)
      [(M_write [1], Inr PyNone)] t \<and> scalls t = [Call_write_all [1]]"
proof -
  let ?ss = "send_new tokio_bits (Inr 5)"
  let ?a = "\<lparr>sa_closed = False, sa_code = 0, sa_priority = 5, sa_synced = 5\<rparr>"
  have ret: "session_ret tokio_bits ext_ref SM_open_uni (SResp_uni_send (Inr (Inr 5))) = Some (Inr (SV_send ?ss))"
    by (simp add: session_ret_def)
  have w: "write_fn_ret ext_ref (Op_write [1]) (Resp_write_all (Inr ())) = Some (Inr PyNone)" by simp
  have "send_spec ext_ref (M_write [1]) ?a (Inr PyNone) ?a [Call_write_all [1]]"
    using exI [of "\<lambda>ans. write_fn_ret ext_ref (Op_write [1]) ans = Some (Inr PyNone)", OF w]
    by (simp add: send_op_spec_def sync_calls_def)
  then have "spec_trace (send_spec ext_ref) ?a [(M_write [1], Inr PyNone)] ?a ([Call_write_all [1]] @ [])"
    by (rule trace_Cons [of "send_spec ext_ref", OF _ trace_Nil])
  moreover have "?ss \<in> set (session_sends (SV_send ?ss))" "opened_priority (SResp_uni_send (Inr (Inr 5))) = Some 5"
    by simp_all
  ultimately obtain t where
    "sequential (send_step tokio_bits ext_ref) Spawn send_mine send_result (send_unused ?ss)
      [(M_write [1], Inr PyNone)] t" "scalls t = [Call_write_all [1]] @ []"
    using session_streams_fresh [OF tokio_bits_ok ret] by (metis option.inject)
  with ret show ?thesis by auto
qed

end
