(* ===== verification/Transport_Config.thy ===== *)
theory Transport_Config
  imports Duration Exceptions
begin

text \<open>
  The transport settings that \<^verbatim>\<open>Client::new\<close> (\<^verbatim>\<open>src/client.rs\<close>, lines 78-112) and \<^verbatim>\<open>Server::new\<close>
  (\<^verbatim>\<open>src/server.rs\<close>, lines 55-90) build from their keyword arguments, and the congestion
  controllers they select. The two copies are modelled separately. \<^verbatim>\<open>quinn::IdleTimeout::try_from\<close>
  is a parameter: the text of its error, or the timeout.
\<close>

section \<open>Helpers of the standard library\<close>

text \<open>\<^verbatim>\<open>Option<Result<T, E>>::transpose\<close>.\<close>

definition transpose_opt :: "('e + 'a) option \<Rightarrow> 'e + 'a option" where
  "transpose_opt r = (case r of None \<Rightarrow> Inr None | Some (Inl e) \<Rightarrow> Inl e | Some (Inr a) \<Rightarrow> Inr (Some a))"

lemma transpose_opt_simps [simp]:
  "transpose_opt None = Inr None" "transpose_opt (Some (Inl e)) = Inl e"
  "transpose_opt (Some (Inr a)) = Inr (Some a)"
  by (simp_all add: transpose_opt_def)

abbreviation value_error :: "string \<Rightarrow> py_err" where
  "value_error msg \<equiv> new_err PyValueError msg"

section \<open>The settings\<close>

datatype congestion = CubicConfig | BbrConfig

text \<open>
  The fields of \<^verbatim>\<open>quinn::TransportConfig\<close> the code sets; the controller factory keeps quinn's
  default when it is not set.
\<close>

record 'idle transport_config =
  tc_max_idle_timeout :: "'idle option"
  tc_keep_alive_interval :: "duration option"
  tc_congestion_controller :: "congestion option"

definition client_congestion_control :: "string \<Rightarrow> py_err + congestion option" where
  "client_congestion_control congestion_control =
     (if congestion_control = ''default'' then Inr None
      else if congestion_control = ''throughput'' then Inr (Some CubicConfig)
      else if congestion_control = ''low_latency'' then Inr (Some BbrConfig)
      else Inl (value_error (''unknown congestion control: '' @ congestion_control)))"

definition client_transport ::
  "(duration \<Rightarrow> string + 'idle) \<Rightarrow> string \<Rightarrow> f64 option \<Rightarrow> f64 option \<Rightarrow> py_err + 'idle transport_config"
  where
  "client_transport idle_timeout_try_from congestion_control max_idle_timeout keep_alive_interval =
     res_bind
       (res_bind
         (map_err (\<lambda>_. value_error ''invalid max_idle_timeout'')
           (transpose_opt (map_option try_from_secs_f64 max_idle_timeout)))
         (\<lambda>d. map_err (\<lambda>e. value_error (''invalid idle timeout: '' @ e))
           (transpose_opt (map_option idle_timeout_try_from d))))
       (\<lambda>idle.
     res_bind
       (map_err (\<lambda>_. value_error ''invalid keep_alive_interval'')
         (transpose_opt (map_option try_from_secs_f64 keep_alive_interval)))
       (\<lambda>keep_alive.
     res_bind (client_congestion_control congestion_control) (\<lambda>congestion_controller.
       Inr \<lparr>tc_max_idle_timeout = idle, tc_keep_alive_interval = keep_alive,
            tc_congestion_controller = congestion_controller\<rparr>)))"

definition server_congestion_control :: "string \<Rightarrow> py_err + congestion option" where
  "server_congestion_control congestion_control =
     (if congestion_control = ''default'' then Inr None
      else if congestion_control = ''throughput'' then Inr (Some CubicConfig)
      else if congestion_control = ''low_latency'' then Inr (Some BbrConfig)
      else Inl (value_error (''unknown congestion control: '' @ congestion_control)))"

definition server_transport ::
  "(duration \<Rightarrow> string + 'idle) \<Rightarrow> string \<Rightarrow> f64 option \<Rightarrow> f64 option \<Rightarrow> py_err + 'idle transport_config"
  where
  "server_transport idle_timeout_try_from congestion_control max_idle_timeout keep_alive_interval =
     res_bind
       (res_bind
         (map_err (\<lambda>_. value_error ''invalid max_idle_timeout'')
           (transpose_opt (map_option try_from_secs_f64 max_idle_timeout)))
         (\<lambda>d. map_err (\<lambda>e. value_error (''invalid idle timeout: '' @ e))
           (transpose_opt (map_option idle_timeout_try_from d))))
       (\<lambda>idle.
     res_bind
       (map_err (\<lambda>_. value_error ''invalid keep_alive_interval'')
         (transpose_opt (map_option try_from_secs_f64 keep_alive_interval)))
       (\<lambda>keep_alive.
     res_bind (server_congestion_control congestion_control) (\<lambda>congestion_controller.
       Inr \<lparr>tc_max_idle_timeout = idle, tc_keep_alive_interval = keep_alive,
            tc_congestion_controller = congestion_controller\<rparr>)))"

section \<open>What the settings mean\<close>

text \<open>
  The documented behaviour of \<^verbatim>\<open>IdleTimeout::try_from\<close>: the timeout is kept in milliseconds as a
  QUIC variable-length integer, below \<open>2 ^ 62\<close>.
\<close>

definition idle_timeout_doc :: "(duration \<Rightarrow> string + 'idle) \<Rightarrow> bool" where
  "idle_timeout_doc f \<longleftrightarrow> (\<forall>d. (\<exists>i. f d = Inr i) \<longleftrightarrow> as_millis d < 2 ^ 62)"

definition idle_timeout_ref :: "duration \<Rightarrow> string + nat" where
  "idle_timeout_ref d = (if as_millis d < 2 ^ 62 then Inr (as_millis d) else Inl ''value too large'')"

lemma idle_timeout_ref_doc: "idle_timeout_doc idle_timeout_ref"
  by (simp add: idle_timeout_doc_def idle_timeout_ref_def)

text \<open>A number of seconds the conversion accepts, and one that is a valid idle timeout.\<close>

definition valid_secs :: "f64 \<Rightarrow> bool" where
  "valid_secs x \<longleftrightarrow> \<not> f64_negative x \<and> f64_exp x < 1087"

definition secs_nanos :: "f64 \<Rightarrow> nat" where
  "secs_nanos x = round_half_even (f64_num x * NANOS_PER_SEC) (f64_den x)"

lemma try_from_secs_cases:
  obtains (ok) d where "try_from_secs_f64 x = Inr d" "valid_secs x" "as_nanos d = secs_nanos x"
  | (err) e where "try_from_secs_f64 x = Inl e" "\<not> valid_secs x"
  using try_from_secs_f64_nanos(1) [of x] try_from_secs_f64_ok_iff [of x]
  by (cases "try_from_secs_f64 x") (auto simp: valid_secs_def secs_nanos_def)

definition known_congestion :: "string \<Rightarrow> bool" where
  "known_congestion s \<longleftrightarrow> s \<in> {''default'', ''throughput'', ''low_latency''}"

lemma congestion_ok_iff: "(\<exists>c. client_congestion_control s = Inr c) \<longleftrightarrow> known_congestion s"
  by (auto simp: client_congestion_control_def known_congestion_def)

lemma transports_agree: "server_transport f = client_transport f"
  by (intro ext) (simp add: server_transport_def client_transport_def
      server_congestion_control_def client_congestion_control_def)

lemma transport_error_class:
  "client_transport f cc mi ka = Inl e \<Longrightarrow> exc e = PyValueError"
  by (auto simp: client_transport_def client_congestion_control_def res_simps
      split: if_splits)

text \<open>The idle setting on its own.\<close>

lemma idle_stage_iff:
  assumes "idle_timeout_doc f"
  shows "(\<exists>i. res_bind (map_err g (transpose_opt (map_option try_from_secs_f64 mi)))
      (\<lambda>d. map_err h (transpose_opt (map_option f d))) = Inr i) \<longleftrightarrow>
    (case mi of None \<Rightarrow> True | Some x \<Rightarrow> valid_secs x \<and> secs_nanos x div 1000000 < 2 ^ 62)"
proof (cases mi)
  case (Some x)
  show ?thesis
  proof (cases rule: try_from_secs_cases [of x])
    case (ok d)
    with assms have "(\<exists>i. f d = Inr i) \<longleftrightarrow> secs_nanos x div 1000000 < 2 ^ 62"
      by (simp add: idle_timeout_doc_def as_millis_def)
    with ok Some show ?thesis by (cases "f d") auto
  qed (use Some in simp)
qed simp

section \<open>Properties\<close>

text \<open>
  C22: both constructors accept exactly the documented settings, in the same way: each time is None or
  a number of seconds that is not negative and below \<open>2 ^ 64\<close>, the idle timeout is also below
  \<open>2 ^ 62\<close> milliseconds, and the congestion control is one of the three names. Anything else
  raises ValueError. The client and the server build the same transport settings.
\<close>

theorem transport_settings_accepted:
  assumes "idle_timeout_doc f"
  shows "((\<exists>t. client_transport f cc mi ka = Inr t) \<longleftrightarrow>
      (case mi of None \<Rightarrow> True | Some x \<Rightarrow> valid_secs x \<and> secs_nanos x div 1000000 < 2 ^ 62) \<and>
      (case ka of None \<Rightarrow> True | Some x \<Rightarrow> valid_secs x) \<and> known_congestion cc) \<and>
    (\<forall>e. client_transport f cc mi ka = Inl e \<longrightarrow> exc e = PyValueError) \<and>
    server_transport f cc mi ka = client_transport f cc mi ka"
proof (intro conjI allI impI)
  have ka: "(\<exists>k. map_err g (transpose_opt (map_option try_from_secs_f64 ka)) = Inr k) \<longleftrightarrow>
      (case ka of None \<Rightarrow> True | Some x \<Rightarrow> valid_secs x)"
    for g :: "try_from_float_secs_error \<Rightarrow> py_err"
  proof (cases ka)
    case (Some x)
    then show ?thesis by (cases rule: try_from_secs_cases [of x]) auto
  qed simp
  show "(\<exists>t. client_transport f cc mi ka = Inr t) \<longleftrightarrow>
      (case mi of None \<Rightarrow> True | Some x \<Rightarrow> valid_secs x \<and> secs_nanos x div 1000000 < 2 ^ 62) \<and>
      (case ka of None \<Rightarrow> True | Some x \<Rightarrow> valid_secs x) \<and> known_congestion cc"
    unfolding idle_stage_iff [OF assms, symmetric, where g = "\<lambda>_. value_error ''invalid max_idle_timeout''"
        and h = "\<lambda>e. value_error (''invalid idle timeout: '' @ e)"]
      ka [symmetric, where g = "\<lambda>_. value_error ''invalid keep_alive_interval''"]
      congestion_ok_iff [symmetric] client_transport_def
    by (auto simp: res_bind_eq_Inr)
qed (auto dest: transport_error_class simp: transports_agree)

theorem transport_settings_accepted_witness:
  "(\<exists>t. client_transport idle_timeout_ref ''low_latency'' (Some 0x403E000000000000) None = Inr t) \<and>
   (\<nexists>t. client_transport idle_timeout_ref ''fast'' None None = Inr t)"
proof -
  have "valid_secs 0x403E000000000000" "secs_nanos 0x403E000000000000 = 30000000000"
    by (simp_all add: valid_secs_def secs_nanos_def f64_eval)
  with transport_settings_accepted [OF idle_timeout_ref_doc, of "''low_latency''"
      "Some 0x403E000000000000" None]
    transport_settings_accepted [OF idle_timeout_ref_doc, of "''fast''" None None]
  show ?thesis by (auto simp: known_congestion_def)
qed

text \<open>
  C26: the settings mean what was asked. When a constructor accepts them, None leaves the timeout or
  the keep-alive off, the times are the given seconds to within half a nanosecond, and the
  controller is quinn's default, CUBIC or BBR by name.
\<close>

theorem transport_settings_meaning:
  assumes "client_transport f cc mi ka = Inr t"
  shows "(case mi of None \<Rightarrow> tc_max_idle_timeout t = None
      | Some x \<Rightarrow> \<exists>d i. f d = Inr i \<and> tc_max_idle_timeout t = Some i \<and>
          2 * (as_nanos d * f64_den x) \<le> 2 * (f64_num x * NANOS_PER_SEC) + f64_den x \<and>
          2 * (f64_num x * NANOS_PER_SEC) \<le> 2 * (as_nanos d * f64_den x) + f64_den x) \<and>
    (case ka of None \<Rightarrow> tc_keep_alive_interval t = None
      | Some x \<Rightarrow> \<exists>d. tc_keep_alive_interval t = Some d \<and>
          2 * (as_nanos d * f64_den x) \<le> 2 * (f64_num x * NANOS_PER_SEC) + f64_den x \<and>
          2 * (f64_num x * NANOS_PER_SEC) \<le> 2 * (as_nanos d * f64_den x) + f64_den x) \<and>
    tc_congestion_controller t =
      map_of [(''throughput'', CubicConfig), (''low_latency'', BbrConfig)] cc"
proof -
  from assms obtain d idle keep where
    d: "transpose_opt (map_option try_from_secs_f64 mi) = Inr d"
    and idle: "transpose_opt (map_option f d) = Inr idle"
    and keep: "transpose_opt (map_option try_from_secs_f64 ka) = Inr keep"
    and cc: "client_congestion_control cc = Inr (tc_congestion_controller t)"
    and t: "tc_max_idle_timeout t = idle" "tc_keep_alive_interval t = keep"
    by (auto simp: client_transport_def res_bind_eq_Inr)
  have opt: "\<exists>d. o' = Some d \<and> try_from_secs_f64 x = Inr d"
    if "transpose_opt (Some (try_from_secs_f64 x)) = Inr o'" for x o'
    using that by (cases "try_from_secs_f64 x") auto
  show ?thesis
  proof (intro conjI)
    show "tc_congestion_controller t = map_of [(''throughput'', CubicConfig), (''low_latency'', BbrConfig)] cc"
      using cc by (auto simp: client_congestion_control_def split: if_splits)
    show "case ka of None \<Rightarrow> tc_keep_alive_interval t = None
      | Some x \<Rightarrow> \<exists>d. tc_keep_alive_interval t = Some d \<and>
          2 * (as_nanos d * f64_den x) \<le> 2 * (f64_num x * NANOS_PER_SEC) + f64_den x \<and>
          2 * (f64_num x * NANOS_PER_SEC) \<le> 2 * (as_nanos d * f64_den x) + f64_den x"
      using keep t opt try_from_secs_f64_near by (cases ka) fastforce+
    show "case mi of None \<Rightarrow> tc_max_idle_timeout t = None
      | Some x \<Rightarrow> \<exists>d i. f d = Inr i \<and> tc_max_idle_timeout t = Some i \<and>
          2 * (as_nanos d * f64_den x) \<le> 2 * (f64_num x * NANOS_PER_SEC) + f64_den x \<and>
          2 * (f64_num x * NANOS_PER_SEC) \<le> 2 * (as_nanos d * f64_den x) + f64_den x"
    proof (cases mi)
      case None
      with d idle t show ?thesis by auto
    next
      case (Some x)
      with d opt obtain d' where d': "d = Some d'" "try_from_secs_f64 x = Inr d'" by fastforce
      with idle obtain i where "f d' = Inr i" "idle = Some i" by (cases "f d'") auto
      with Some t try_from_secs_f64_near [OF d'(2)] show ?thesis by auto
    qed
  qed
qed

theorem transport_settings_meaning_witness:
  "\<exists>t. client_transport idle_timeout_ref ''throughput'' (Some 0x403E000000000000) None = Inr t \<and>
    tc_max_idle_timeout t = Some 30000 \<and> tc_keep_alive_interval t = None \<and>
    tc_congestion_controller t = Some CubicConfig"
proof -
  have c: "client_transport idle_timeout_ref ''throughput'' (Some 0x403E000000000000) None =
      Inr \<lparr>tc_max_idle_timeout = Some 30000, tc_keep_alive_interval = None,
           tc_congestion_controller = Some CubicConfig\<rparr>"
    by (simp add: client_transport_def try_from_30 idle_timeout_ref_def as_millis_def as_nanos_def
        NANOS_PER_SEC_def client_congestion_control_def)
  from transport_settings_meaning [OF c] c show ?thesis by auto
qed

end
