(* ===== verification/Endpoint.thy ===== *)
theory Endpoint
  imports Transport_Config
begin

text \<open>
  The calls that \<^verbatim>\<open>Client\<close> and \<^verbatim>\<open>Server\<close> make on the QUIC endpoint after it is created. Codes are \<^verbatim>\<open>u64\<close>, as in
  the signatures: Python integers outside that range are refused by the extraction of the argument,
  before the method runs. \<^verbatim>\<open>quinn::VarInt::from_u64\<close> is a parameter.
\<close>

datatype endpoint_call = Ep_close u64 bytes | Ep_wait_idle

text \<open>The documented behaviour of \<^verbatim>\<open>VarInt::from_u64\<close>: values below \<open>2 ^ 62\<close> are kept as they are.\<close>

definition varint_doc :: "(u64 \<Rightarrow> unit + u64) \<Rightarrow> bool" where
  "varint_doc V \<longleftrightarrow> (\<forall>x. V x = (if x < 2 ^ 62 then Inr x else Inl ()))"

lemma varint_doc_ref: "varint_doc (\<lambda>x. if x < 2 ^ 62 then Inr x else Inl ())"
  by (simp add: varint_doc_def)

end
