(* ===== verification/Cert_Verify.thy ===== *)
theory Cert_Verify
  imports Prelude
begin

text \<open>
  The certificate verifiers of \<^verbatim>\<open>src/client.rs\<close> (lines 190-332): \<^verbatim>\<open>ServerFingerprints\<close>,
  \<^verbatim>\<open>NoCertificateVerification\<close> and the helper \<^verbatim>\<open>sha256\<close>. The crypto provider belongs to \<^verbatim>\<open>rustls\<close>: a
  record of the fields and functions the code uses. \<open>cert_verifier\<close> is the interface of
  \<^verbatim>\<open>ServerCertVerifier\<close> as both types implement it: trust depends on the end-entity certificate
  alone, and the handshake signatures are left to the provider.
\<close>

section \<open>What is used of rustls\<close>

datatype hash_algorithm = SHA256 | SHA384 | SHA512 | HashAlgorithm_other nat

record hash_provider =
  algorithm :: hash_algorithm
  hash :: "bytes \<Rightarrow> bytes"

text \<open>
  A cipher suite is what \<^verbatim>\<open>suite.tls13()\<close> gives, with the \<^verbatim>\<open>common.hash_provider\<close> of a TLS 1.3
  suite; \<open>'sa\<close> is the type of \<^verbatim>\<open>signature_verification_algorithms\<close>, \<open>'ss\<close> of a signature scheme.
\<close>

record ('sa, 'ss) crypto_provider =
  cipher_suites :: "hash_provider option list"
  signature_verification_algorithms :: 'sa
  supported_schemes :: "'sa \<Rightarrow> 'ss list"

datatype certificate_error = UnknownIssuer | CertificateError_other nat

datatype rustls_error =
    InvalidCertificate certificate_error
  | General string
  | rustls_Error_other nat

text \<open>\<^verbatim>\<open>rustls::crypto::verify_tls12_signature\<close> and \<^verbatim>\<open>verify_tls13_signature\<close>.\<close>

type_synonym ('sa, 'dss) verify_fn = "bytes \<Rightarrow> bytes \<Rightarrow> 'dss \<Rightarrow> 'sa \<Rightarrow> rustls_error + unit"

record ('sa, 'dss) rustls_crypto =
  crypto_verify_tls12_signature :: "('sa, 'dss) verify_fn"
  crypto_verify_tls13_signature :: "('sa, 'dss) verify_fn"

section \<open>Hashing a certificate\<close>

text \<open>\<^verbatim>\<open>Iterator::find_map\<close>.\<close>

fun find_map :: "('a \<Rightarrow> 'b option) \<Rightarrow> 'a list \<Rightarrow> 'b option" where
  "find_map f [] = None"
| "find_map f (x # xs) = (case f x of None \<Rightarrow> find_map f xs | Some b \<Rightarrow> Some b)"

definition sha256_of_suite :: "hash_provider option \<Rightarrow> hash_provider option" where
  "sha256_of_suite suite =
     (case suite of
        None \<Rightarrow> None
      | Some hash_provider \<Rightarrow> if algorithm hash_provider = SHA256 then Some hash_provider else None)"

definition sha256 :: "('sa, 'ss) crypto_provider \<Rightarrow> bytes \<Rightarrow> rustls_error + bytes" where
  "sha256 provider cert =
     res_bind
       (ok_or_else (General ''crypto provider does not support SHA-256'')
         (find_map sha256_of_suite (cipher_suites provider)))
       (\<lambda>hash_provider. Inr (hash hash_provider cert))"

section \<open>The verifiers\<close>

record ('sa, 'ss) server_fingerprints =
  sf_provider :: "('sa, 'ss) crypto_provider"
  sf_fingerprints :: "bytes list"

definition fp_verify_server_cert ::
  "('sa, 'ss) server_fingerprints \<Rightarrow> bytes \<Rightarrow> bytes list \<Rightarrow> 'name \<Rightarrow> bytes \<Rightarrow> 'time \<Rightarrow> rustls_error + unit"
  where
  "fp_verify_server_cert self end_entity intermediates server_name ocsp_response now =
     res_bind (sha256 (sf_provider self) end_entity) (\<lambda>cert_hash.
       if list_ex (\<lambda>fingerprint. fingerprint = cert_hash) (sf_fingerprints self) then Inr ()
       else Inl (InvalidCertificate UnknownIssuer))"

definition fp_verify_tls12_signature ::
  "('sa, 'dss) rustls_crypto \<Rightarrow> ('sa, 'ss) server_fingerprints \<Rightarrow> bytes \<Rightarrow> bytes \<Rightarrow> 'dss \<Rightarrow>
   rustls_error + unit" where
  "fp_verify_tls12_signature K self message cert dss =
     crypto_verify_tls12_signature K message cert dss
       (signature_verification_algorithms (sf_provider self))"

definition fp_verify_tls13_signature ::
  "('sa, 'dss) rustls_crypto \<Rightarrow> ('sa, 'ss) server_fingerprints \<Rightarrow> bytes \<Rightarrow> bytes \<Rightarrow> 'dss \<Rightarrow>
   rustls_error + unit" where
  "fp_verify_tls13_signature K self message cert dss =
     crypto_verify_tls13_signature K message cert dss
       (signature_verification_algorithms (sf_provider self))"

definition fp_supported_verify_schemes :: "('sa, 'ss) server_fingerprints \<Rightarrow> 'ss list" where
  "fp_supported_verify_schemes self =
     supported_schemes (sf_provider self) (signature_verification_algorithms (sf_provider self))"

datatype ('sa, 'ss) no_verification = NoCertificateVerification "('sa, 'ss) crypto_provider"

definition no_verify_server_cert ::
  "('sa, 'ss) no_verification \<Rightarrow> bytes \<Rightarrow> bytes list \<Rightarrow> 'name \<Rightarrow> bytes \<Rightarrow> 'time \<Rightarrow> rustls_error + unit"
  where
  "no_verify_server_cert self end_entity intermediates server_name ocsp now = Inr ()"

fun no_verify_tls12_signature ::
  "('sa, 'dss) rustls_crypto \<Rightarrow> ('sa, 'ss) no_verification \<Rightarrow> bytes \<Rightarrow> bytes \<Rightarrow> 'dss \<Rightarrow>
   rustls_error + unit" where
  "no_verify_tls12_signature K (NoCertificateVerification p) message cert dss =
     crypto_verify_tls12_signature K message cert dss (signature_verification_algorithms p)"

fun no_verify_tls13_signature ::
  "('sa, 'dss) rustls_crypto \<Rightarrow> ('sa, 'ss) no_verification \<Rightarrow> bytes \<Rightarrow> bytes \<Rightarrow> 'dss \<Rightarrow>
   rustls_error + unit" where
  "no_verify_tls13_signature K (NoCertificateVerification p) message cert dss =
     crypto_verify_tls13_signature K message cert dss (signature_verification_algorithms p)"

fun no_supported_verify_schemes :: "('sa, 'ss) no_verification \<Rightarrow> 'ss list" where
  "no_supported_verify_schemes (NoCertificateVerification p) =
     supported_schemes p (signature_verification_algorithms p)"

section \<open>The interface of a verifier\<close>

text \<open>
  \<open>trusts\<close> is the set of end-entity certificates a verifier accepts. TLS needs a second check
  besides: the handshake signature, which proves possession of the key. The laws say that the
  verifier decides the first by \<open>trusts\<close> and leaves the second to the provider.
\<close>

locale cert_verifier =
  fixes verify_server_cert :: "bytes \<Rightarrow> bytes list \<Rightarrow> 'name \<Rightarrow> bytes \<Rightarrow> 'time \<Rightarrow> rustls_error + unit"
    and verify_tls13 :: "bytes \<Rightarrow> bytes \<Rightarrow> 'dss \<Rightarrow> rustls_error + unit"
    and provider_verify :: "bytes \<Rightarrow> bytes \<Rightarrow> 'dss \<Rightarrow> rustls_error + unit"
    and trusts :: "bytes \<Rightarrow> bool"
  assumes accepts_trusted: "verify_server_cert ee ims name ocsp now = Inr () \<longleftrightarrow> trusts ee"
    and signatures_checked: "verify_tls13 msg ee dss = provider_verify msg ee dss"
begin

lemma accept_independent:
  "verify_server_cert ee ims name ocsp now = Inr () \<longleftrightarrow>
   verify_server_cert ee ims' name' ocsp' now' = Inr ()"
  by (simp add: accepts_trusted)

lemma untrusted_rejected: "\<not> trusts ee \<Longrightarrow> \<exists>e. verify_server_cert ee ims name ocsp now = Inl e"
  using accepts_trusted [of ee ims name ocsp now]
  by (cases "verify_server_cert ee ims name ocsp now") auto

text \<open>Both checks pass exactly for a trusted certificate whose key signed the handshake.\<close>

lemma authenticated:
  "verify_server_cert ee ims name ocsp now = Inr () \<and> verify_tls13 msg ee dss = Inr () \<longleftrightarrow>
   trusts ee \<and> provider_verify msg ee dss = Inr ()"
  by (simp add: accepts_trusted signatures_checked)

end

section \<open>Both verifiers keep the interface\<close>

text \<open>The hash function of the first TLS 1.3 suite that uses SHA-256.\<close>

definition provider_sha256 :: "('sa, 'ss) crypto_provider \<Rightarrow> (bytes \<Rightarrow> bytes) option" where
  "provider_sha256 p = map_option hash (find_map sha256_of_suite (cipher_suites p))"

lemma find_map_SomeD: "find_map f xs = Some b \<Longrightarrow> \<exists>x \<in> set xs. f x = Some b"
  by (induction xs) (auto split: option.splits)

lemma find_map_None: "find_map f xs = None \<longleftrightarrow> (\<forall>x \<in> set xs. f x = None)"
  by (induction xs) (auto split: option.splits)

lemma provider_sha256_None:
  "provider_sha256 p = None \<longleftrightarrow> (\<forall>hp. Some hp \<in> set (cipher_suites p) \<longrightarrow> algorithm hp \<noteq> SHA256)"
  by (auto simp: provider_sha256_def find_map_None sha256_of_suite_def split: option.splits)

lemma provider_sha256_SomeD:
  "provider_sha256 p = Some h \<Longrightarrow>
   \<exists>hp. Some hp \<in> set (cipher_suites p) \<and> algorithm hp = SHA256 \<and> hash hp = h"
  by (auto simp: provider_sha256_def sha256_of_suite_def
      dest!: find_map_SomeD split: option.splits if_splits)

lemma sha256_eq:
  "sha256 p c = (case provider_sha256 p of
      None \<Rightarrow> Inl (General ''crypto provider does not support SHA-256'') | Some h \<Rightarrow> Inr (h c))"
  by (simp add: sha256_def provider_sha256_def split: option.split)

definition pins :: "('sa, 'ss) server_fingerprints \<Rightarrow> bytes \<Rightarrow> bool" where
  "pins v cert \<longleftrightarrow> (\<exists>h. provider_sha256 (sf_provider v) = Some h \<and> h cert \<in> set (sf_fingerprints v))"

lemma fp_verify_eq:
  "fp_verify_server_cert v ee ims name ocsp now =
     (case provider_sha256 (sf_provider v) of
        None \<Rightarrow> Inl (General ''crypto provider does not support SHA-256'')
      | Some h \<Rightarrow> if h ee \<in> set (sf_fingerprints v) then Inr () else Inl (InvalidCertificate UnknownIssuer))"
  by (auto simp: fp_verify_server_cert_def sha256_eq list_ex_iff split: option.split)

interpretation pinned: cert_verifier "fp_verify_server_cert v" "fp_verify_tls13_signature K v"
  "\<lambda>msg cert dss. crypto_verify_tls13_signature K msg cert dss
     (signature_verification_algorithms (sf_provider v))" "pins v" for K v
  by unfold_locales
    (auto simp: fp_verify_eq pins_def fp_verify_tls13_signature_def split: option.splits)

interpretation unverified: cert_verifier "no_verify_server_cert (NoCertificateVerification p)"
  "no_verify_tls13_signature K (NoCertificateVerification p)"
  "\<lambda>msg cert dss. crypto_verify_tls13_signature K msg cert dss (signature_verification_algorithms p)"
  "\<lambda>_. True" for K p
  by unfold_locales (simp_all add: no_verify_server_cert_def)

section \<open>Properties\<close>

text \<open>A provider and a verifier for concrete evaluation: a toy digest in place of SHA-256.\<close>

definition sum_digest :: "bytes \<Rightarrow> bytes" where
  "sum_digest bs = [sum_list bs, of_nat (length bs)]"

definition provider_ref :: "(unit, nat) crypto_provider" where
  "provider_ref = \<lparr>cipher_suites = [None, Some \<lparr>algorithm = SHA384, hash = rev\<rparr>,
      Some \<lparr>algorithm = SHA256, hash = sum_digest\<rparr>],
     signature_verification_algorithms = (), supported_schemes = (\<lambda>_. [1])\<rparr>"

text \<open>
  Pinning. A server certificate is accepted exactly when the SHA-256 hash of the end-entity
  certificate, by the first TLS 1.3 suite of the provider that uses SHA-256, is one of the pinned
  fingerprints: whatever intermediates, server name, OCSP response and time are given. Every other
  certificate is refused with UnknownIssuer, and a provider without SHA-256 refuses them all.
\<close>

lemma fingerprints_pin:
  assumes "provider_sha256 (sf_provider v) = Some h"
  shows "(fp_verify_server_cert v ee ims name ocsp now = Inr () \<longleftrightarrow> h ee \<in> set (sf_fingerprints v)) \<and>
    (h ee \<notin> set (sf_fingerprints v) \<longrightarrow>
      fp_verify_server_cert v ee ims name ocsp now = Inl (InvalidCertificate UnknownIssuer)) \<and>
    (\<exists>hp. Some hp \<in> set (cipher_suites (sf_provider v)) \<and> algorithm hp = SHA256 \<and> hash hp = h)"
  using assms provider_sha256_SomeD [OF assms] pinned.accepts_trusted [of v ee ims name ocsp now]
  by (auto simp: pins_def fp_verify_eq)

text \<open>
  When the hash has no collisions, pinning the hashes of given certificates accepts exactly
  these certificates.
\<close>

lemma pinned_certificates_only:
  assumes "provider_sha256 (sf_provider v) = Some h" "inj_on h (insert ee (set certs))"
    "sf_fingerprints v = map h certs"
  shows "fp_verify_server_cert v ee ims name ocsp now = Inr () \<longleftrightarrow> ee \<in> set certs"
  using assms pinned.accepts_trusted [of v ee ims name ocsp now]
  by (auto simp: pins_def inj_on_def)

text \<open>
  Without verification every certificate is accepted, but neither verifier skips the handshake
  signature: both hand it to the provider's check with the provider's own algorithms.
\<close>

lemma verifiers_check_signatures:
  "no_verify_server_cert (NoCertificateVerification p) ee ims name ocsp now = Inr () \<and>
   no_verify_tls12_signature K (NoCertificateVerification p) msg ee dss =
     fp_verify_tls12_signature K \<lparr>sf_provider = p, sf_fingerprints = fps\<rparr> msg ee dss \<and>
   no_verify_tls13_signature K (NoCertificateVerification p) msg ee dss =
     fp_verify_tls13_signature K \<lparr>sf_provider = p, sf_fingerprints = fps\<rparr> msg ee dss \<and>
   fp_verify_tls13_signature K \<lparr>sf_provider = p, sf_fingerprints = fps\<rparr> msg ee dss =
     crypto_verify_tls13_signature K msg ee dss (signature_verification_algorithms p) \<and>
   no_supported_verify_schemes (NoCertificateVerification p) =
     fp_supported_verify_schemes \<lparr>sf_provider = p, sf_fingerprints = fps\<rparr>"
  by (simp add: unverified.accepts_trusted fp_verify_tls12_signature_def
      fp_verify_tls13_signature_def fp_supported_verify_schemes_def)

end
