(* ===== verification/Client.thy ===== *)
theory Client
  imports Endpoint Cert_Verify Error_Mapping Addr_Roundtrip
begin

text \<open>
  \<^verbatim>\<open>Client\<close> of \<^verbatim>\<open>src/client.rs\<close> (lines 13-188): the constructor, from its keyword arguments to the TLS
  and QUIC configuration and the endpoint, and the methods. The TLS configuration is the data the
  code builds; what \<^verbatim>\<open>rustls\<close>, \<^verbatim>\<open>rustls_native_certs\<close> and \<^verbatim>\<open>quinn\<close> make of it are parameters, with an
  error given as the text it displays.
\<close>

section \<open>The TLS configuration\<close>

datatype ('sa, 'ss, 'roots) server_verifier =
    Dangerous_noop "('sa, 'ss) no_verification"
  | Dangerous_fingerprints "('sa, 'ss) server_fingerprints"
  | Root_certificates 'roots

record ('sa, 'ss, 'roots) client_tls =
  ct_verifier :: "('sa, 'ss, 'roots) server_verifier"
  ct_alpn_protocols :: "bytes list"

record ('sa, 'ss, 'roots, 'idle, 'quic, 'ep) client_env =
  ring_default_provider :: "('sa, 'ss) crypto_provider"
  client_with_tls13 :: "('sa, 'ss) crypto_provider \<Rightarrow> string + unit"
  native_certs :: "bytes list"
  native_errors :: "string list"
  debug_errors :: "string list \<Rightarrow> string"
  roots_empty :: 'roots
  roots_add :: "'roots \<Rightarrow> bytes \<Rightarrow> 'roots"
  ALPN :: string
  idle_timeout_try_from :: "duration \<Rightarrow> string + 'idle"
  quic_client_config :: "('sa, 'ss, 'roots) client_tls \<Rightarrow> string + 'quic"
  endpoint_client :: "socket_addr \<Rightarrow> string + 'ep"

text \<open>
  Loading the system roots: certificates the store refuses are skipped; loading errors are
  printed and not fatal. The first component is what is printed to standard error.
\<close>

definition system_roots ::
  "('sa, 'ss, 'roots, 'idle, 'quic, 'ep) client_env \<Rightarrow> string list \<times> 'roots" where
  "system_roots E =
     ((if native_errors E \<noteq> []
       then [''warning: encountered errors loading native certificates: '' @ debug_errors E (native_errors E)]
       else []),
      foldl (roots_add E) (roots_empty E) (native_certs E))"

definition client_tls_config ::
  "('sa, 'ss, 'roots, 'idle, 'quic, 'ep) client_env \<Rightarrow> bytes list option \<Rightarrow> bool \<Rightarrow>
   string list \<times> (py_err + ('sa, 'ss, 'roots) client_tls)" where
  "client_tls_config E server_certificate_hashes no_cert_verification =
     (let provider = ring_default_provider E;
          alpn = [as_bytes (ALPN E)]
      in case map_err (\<lambda>e. value_error (''TLS config error: '' @ e)) (client_with_tls13 E provider) of
           Inl e \<Rightarrow> ([], Inl e)
         | Inr _ \<Rightarrow>
             if no_cert_verification then
               ([], Inr \<lparr>ct_verifier = Dangerous_noop (NoCertificateVerification provider),
                         ct_alpn_protocols = alpn\<rparr>)
             else (case server_certificate_hashes of
                 Some hashes \<Rightarrow>
                   ([], Inr \<lparr>ct_verifier = Dangerous_fingerprints
                               \<lparr>sf_provider = provider, sf_fingerprints = hashes\<rparr>,
                             ct_alpn_protocols = alpn\<rparr>)
               | None \<Rightarrow>
                   (let (warnings, roots) = system_roots E
                    in (warnings, Inr \<lparr>ct_verifier = Root_certificates roots,
                                       ct_alpn_protocols = alpn\<rparr>))))"

section \<open>The constructor\<close>

record ('idle, 'quic, 'ep) client =
  cl_quic :: 'quic
  cl_transport :: "'idle transport_config"
  cl_endpoint :: 'ep

text \<open>
  \<^verbatim>\<open>Client::new\<close>: standard error and the result; \<open>None\<close> when the \<^verbatim>\<open>unwrap\<close> of the parsed address panics.
\<close>

definition client_new ::
  "('sa, 'ss, 'roots, 'idle, 'quic, 'ep) client_env \<Rightarrow> bytes list option \<Rightarrow> bool \<Rightarrow> string \<Rightarrow>
   f64 option \<Rightarrow> f64 option \<Rightarrow> (string list \<times> (py_err + ('idle, 'quic, 'ep) client)) option" where
  "client_new E server_certificate_hashes no_cert_verification congestion_control
       max_idle_timeout keep_alive_interval =
     (let (stderr, tls) = client_tls_config E server_certificate_hashes no_cert_verification;
          config = res_bind tls (\<lambda>tls_config.
            res_bind (client_transport (idle_timeout_try_from E) congestion_control
                max_idle_timeout keep_alive_interval) (\<lambda>transport.
            res_bind (map_err (\<lambda>e. value_error (''QUIC config error: '' @ e))
                (quic_client_config E tls_config)) (\<lambda>quic_config.
              Inr (quic_config, transport))))
      in case config of
           Inl e \<Rightarrow> Some (stderr, Inl e)
         | Inr (quic_config, transport) \<Rightarrow>
             (case parse_socket_addr ''[::]:0'' of
                Inl _ \<Rightarrow> None
              | Inr addr \<Rightarrow> Some (stderr,
                  map_ok (\<lambda>endpoint. \<lparr>cl_quic = quic_config, cl_transport = transport,
                                      cl_endpoint = endpoint\<rparr>)
                    (map_err (\<lambda>e. value_error (''failed to create endpoint: '' @ e))
                      (endpoint_client E addr)))))"

section \<open>The methods\<close>

definition client_close :: "(u64 \<Rightarrow> unit + u64) \<Rightarrow> u64 \<Rightarrow> string \<Rightarrow> (py_err + unit) \<times> endpoint_call list" where
  "client_close from_u64 code reason =
     (case map_err (\<lambda>_. value_error ''code must be less than 2**62'') (from_u64 code) of
        Inl e \<Rightarrow> (Inl e, [])
      | Inr var_code \<Rightarrow> (Inr (), [Ep_close var_code (as_bytes reason)]))"

definition client_aexit :: "endpoint_call list \<times> endpoint_call list" where
  "client_aexit = ([], [Ep_close 0 [], Ep_wait_idle])"

definition client_wait_closed :: "endpoint_call list" where
  "client_wait_closed = [Ep_wait_idle]"




section \<open>Properties\<close>

lemma parse_any_port: "parse_socket_addr ''[::]:0'' = Inr (SocketAddrV6 (replicate 8 0) 0 0 0)"
proof -
  have "char_of (48 :: nat) = CHR ''0''" by code_simp
  then show ?thesis using parse_wildcard_v6 [of 0] by (simp add: show_nat.simps)
qed

lemma client_tls_alpn:
  "client_tls_config E hs nv = (w, Inr tls) \<Longrightarrow> ct_alpn_protocols tls = [as_bytes (ALPN E)]"
  by (auto simp: client_tls_config_def system_roots_def Let_def split: sum.splits if_splits option.splits)

lemma client_tls_error:
  "client_tls_config E hs nv = (w, Inl e) \<Longrightarrow> exc e = PyValueError"
  by (auto simp: client_tls_config_def system_roots_def Let_def map_err_eq_Inl
      split: sum.splits if_splits option.splits)

lemma client_tls_verifier:
  "client_tls_config E hs nv = (w, Inr tls) \<Longrightarrow> ct_verifier tls =
     (if nv then Dangerous_noop (NoCertificateVerification (ring_default_provider E))
      else case hs of
        Some hashes \<Rightarrow> Dangerous_fingerprints
          \<lparr>sf_provider = ring_default_provider E, sf_fingerprints = hashes\<rparr>
      | None \<Rightarrow> Root_certificates (foldl (roots_add E) (roots_empty E) (native_certs E)))"
  by (auto simp: client_tls_config_def system_roots_def Let_def split: sum.splits if_splits option.splits)

lemma client_new_total: "\<exists>w r. client_new E hs nv cc mi ka = Some (w, r)"
  by (auto simp: client_new_def parse_any_port split: prod.split sum.split)

lemma client_new_error: "client_new E hs nv cc mi ka = Some (w, Inl e) \<Longrightarrow> exc e = PyValueError"
  by (auto simp: client_new_def parse_any_port res_simps
      split: prod.splits sum.splits dest: client_tls_error transport_error_class)

lemma client_new_okD:
  assumes "client_new E hs nv cc mi ka = Some (w, Inr c)"
  obtains tls where "client_tls_config E hs nv = (w, Inr tls)"
    "quic_client_config E tls = Inr (cl_quic c)"
    "client_transport (idle_timeout_try_from E) cc mi ka = Inr (cl_transport c)"
    "endpoint_client E (SocketAddrV6 (replicate 8 0) 0 0 0) = Inr (cl_endpoint c)"
  using assms
  by (auto simp: client_new_def parse_any_port res_simps
      split: prod.splits sum.splits)

text \<open>
  C28: the constructor returns or raises ValueError, and never panics. A client it returns uses the
  transport settings of its arguments, offers exactly the WebTransport ALPN, and has the
  verifier asked for: none when verification is disabled, whatever hashes are given; the given
  hashes otherwise; the system roots when there are no hashes.
\<close>

theorem client_new_configures:
  "\<exists>stderr r. client_new E hs nv cc mi ka = Some (stderr, r) \<and>
    (case r of
       Inl e \<Rightarrow> exc e = PyValueError
     | Inr c \<Rightarrow> client_transport (idle_timeout_try_from E) cc mi ka = Inr (cl_transport c) \<and>
         endpoint_client E (SocketAddrV6 (replicate 8 0) 0 0 0) = Inr (cl_endpoint c) \<and>
         (\<exists>tls. quic_client_config E tls = Inr (cl_quic c) \<and>
           ct_alpn_protocols tls = [as_bytes (ALPN E)] \<and>
           ct_verifier tls =
             (if nv then Dangerous_noop (NoCertificateVerification (ring_default_provider E))
              else case hs of
                Some hashes \<Rightarrow> Dangerous_fingerprints
                  \<lparr>sf_provider = ring_default_provider E, sf_fingerprints = hashes\<rparr>
              | None \<Rightarrow> Root_certificates (foldl (roots_add E) (roots_empty E) (native_certs E)))))"
proof -
  obtain w r where r: "client_new E hs nv cc mi ka = Some (w, r)" using client_new_total by blast
  show ?thesis
  proof (cases r)
    case (Inl e)
    with r client_new_error show ?thesis by fastforce
  next
    case (Inr c)
    with r obtain tls where "client_tls_config E hs nv = (w, Inr tls)"
      "quic_client_config E tls = Inr (cl_quic c)"
      "client_transport (idle_timeout_try_from E) cc mi ka = Inr (cl_transport c)"
      "endpoint_client E (SocketAddrV6 (replicate 8 0) 0 0 0) = Inr (cl_endpoint c)"
      by (auto elim: client_new_okD)
    with r Inr client_tls_alpn client_tls_verifier show ?thesis by fastforce
  qed
qed


end
