(* ===== verification/Session_Request.thy ===== *)
theory Session_Request
  imports Session
begin

text \<open>
  \<^verbatim>\<open>SessionRequest\<close> (\<^verbatim>\<open>src/server.rs\<close>, lines 190-256): a request of \<^verbatim>\<open>web_transport_quinn\<close> that is
  taken out of the object by the first \<^verbatim>\<open>accept\<close> or \<^verbatim>\<open>reject\<close>. The request and its URL text are
  third-party, as is \<^verbatim>\<open>http::StatusCode::from_u16\<close>.
\<close>

section \<open>The object and its methods\<close>

record 'req session_request =
  sr_inner :: "'req option"
  sr_url :: string

definition request_new :: "('req \<Rightarrow> string) \<Rightarrow> 'req \<Rightarrow> 'req session_request" where
  "request_new url_to_string request = \<lparr>sr_inner = Some request, sr_url = url_to_string request\<rparr>"

definition request_url :: "'req session_request \<Rightarrow> string" where
  "request_url s = sr_url s"

definition already_answered :: py_err where
  "already_answered = new_err SessionError ''request already accepted or rejected''"

text \<open>\<^verbatim>\<open>self.inner.take()\<close>: the value, and the object with none left.\<close>

definition request_take :: "'req session_request \<Rightarrow> 'req option \<times> 'req session_request" where
  "request_take s = (sr_inner s, s\<lparr>sr_inner := None\<rparr>)"

text \<open>
  The part of \<^verbatim>\<open>accept\<close> and \<^verbatim>\<open>reject\<close> that runs before the future is made: an exception, or the
  request (and the status) the future then owns.
\<close>

definition request_accept :: "'req session_request \<Rightarrow> (py_err + 'req) \<times> 'req session_request" where
  "request_accept s =
     (let (inner, s') = request_take s in (ok_or_else already_answered inner, s'))"

definition request_reject ::
  "(u16 \<Rightarrow> string + 'status) \<Rightarrow> u16 \<Rightarrow> 'req session_request \<Rightarrow>
   (py_err + 'req \<times> 'status) \<times> 'req session_request" where
  "request_reject status_from_u16 status_code s =
     (let (inner, s') = request_take s in
      (res_bind (ok_or_else already_answered inner) (\<lambda>request.
         res_bind (map_err (\<lambda>e. new_err PyValueError (''invalid status code: '' @ e))
             (status_from_u16 status_code)) (\<lambda>status.
           Inr (request, status))), s'))"

text \<open>
  The futures. \<^verbatim>\<open>accept\<close> awaits \<^verbatim>\<open>request.ok()\<close>; \<^verbatim>\<open>reject\<close> awaits \<^verbatim>\<open>request.respond(status)\<close> and, when that
  gives a session, closes it and waits until it is closed. The calls made on the session after
  the answer are listed.
\<close>

definition accept_future :: "'x ext \<Rightarrow> 'x server_error + 'sess \<Rightarrow> py_err + 'sess" where
  "accept_future X r = map_err (map_server_error X) r"

definition reject_future :: "'x ext \<Rightarrow> 'x server_error + 'sess \<Rightarrow> (py_err + unit) \<times> session_call list" where
  "reject_future X r =
     (case map_err (map_server_error X) r of
        Inl e \<Rightarrow> (Inl e, [])
      | Inr session \<Rightarrow> (Inr (), [SCall_close 0 [], SCall_closed]))"

section \<open>Sequences of method calls on one request\<close>

datatype request_method = RM_url | RM_accept | RM_reject u16

datatype ('req, 'status) request_out =
    Out_url string
  | Out_raise py_err
  | Out_ok 'req               \<comment> \<open>a future that calls \<^verbatim>\<open>request.ok()\<close>\<close>
  | Out_respond 'req 'status  \<comment> \<open>a future that calls \<^verbatim>\<open>request.respond(status)\<close>\<close>

fun request_call ::
  "(u16 \<Rightarrow> string + 'status) \<Rightarrow> request_method \<Rightarrow> 'req session_request \<Rightarrow>
   ('req, 'status) request_out \<times> 'req session_request" where
  "request_call F RM_url s = (Out_url (request_url s), s)"
| "request_call F RM_accept s =
     (case request_accept s of
        (Inl e, s') \<Rightarrow> (Out_raise e, s')
      | (Inr req, s') \<Rightarrow> (Out_ok req, s'))"
| "request_call F (RM_reject status_code) s =
     (case request_reject F status_code s of
        (Inl e, s') \<Rightarrow> (Out_raise e, s')
      | (Inr (req, st), s') \<Rightarrow> (Out_respond req st, s'))"

fun request_calls ::
  "(u16 \<Rightarrow> string + 'status) \<Rightarrow> request_method list \<Rightarrow> 'req session_request \<Rightarrow>
   ('req, 'status) request_out list" where
  "request_calls F [] s = []"
| "request_calls F (m # ms) s =
     (let (out, s') = request_call F m s in out # request_calls F ms s')"

definition is_answer :: "('req, 'status) request_out \<Rightarrow> bool" where
  "is_answer o' = (case o' of Out_ok r \<Rightarrow> True | Out_respond r st \<Rightarrow> True | _ \<Rightarrow> False)"

lemmas request_defs = request_accept_def request_reject_def request_take_def request_url_def Let_def

lemma request_calls_spent:
  "sr_inner s = None \<Longrightarrow> request_calls F ms s =
     map (\<lambda>m. case m of RM_url \<Rightarrow> Out_url (sr_url s) | _ \<Rightarrow> Out_raise already_answered) ms"
proof (induction ms arbitrary: s)
  case (Cons m ms)
  have "\<exists>s'. request_call F m s =
      (case m of RM_url \<Rightarrow> Out_url (sr_url s) | _ \<Rightarrow> Out_raise already_answered, s') \<and>
      sr_inner s' = None \<and> sr_url s' = sr_url s"
    using Cons.prems by (cases m) (auto simp: request_defs)
  with Cons.IH show ?case by fastforce
qed simp

lemma request_calls_url:
  "(\<forall>m \<in> set ms. m = RM_url) \<Longrightarrow> request_calls F (ms @ ns) s =
     map (\<lambda>_. Out_url (sr_url s)) ms @ request_calls F ns s"
  by (induction ms) (auto simp: request_url_def)

section \<open>Properties\<close>

text \<open>The documented behaviour of \<^verbatim>\<open>StatusCode::from_u16\<close>: 100 to 999.\<close>

definition status_doc :: "(u16 \<Rightarrow> string + 'status) \<Rightarrow> bool" where
  "status_doc F \<longleftrightarrow> (\<forall>n. (\<exists>st. F n = Inr st) \<longleftrightarrow> 100 \<le> n \<and> n < 1000)"

definition status_ref :: "u16 \<Rightarrow> string + nat" where
  "status_ref n = (if 100 \<le> n \<and> n < 1000 then Inr (unat n) else Inl ''invalid status code'')"

lemma status_ref_doc: "status_doc status_ref"
  by (simp add: status_doc_def status_ref_def)

text \<open>
  C21: a request is answered at most once. In every sequence of method calls on a request, the first
  \<^verbatim>\<open>accept\<close> or \<^verbatim>\<open>reject\<close> takes it, every later one raises SessionError and makes no future, so at most
  one of them sends a response; reading the URL always works and changes nothing.
\<close>

theorem request_answered_once:
  assumes "\<forall>m \<in> set us. m = RM_url" "m \<noteq> RM_url"
  shows "request_calls F (us @ m # ms) (request_new U req) =
      map (\<lambda>_. Out_url (U req)) us @
      (case m of
         RM_accept \<Rightarrow> Out_ok req
       | RM_reject c \<Rightarrow> (case F c of
           Inl e \<Rightarrow> Out_raise (new_err PyValueError (''invalid status code: '' @ e))
         | Inr st \<Rightarrow> Out_respond req st)) #
      map (\<lambda>m. case m of RM_url \<Rightarrow> Out_url (U req)
                       | _ \<Rightarrow> Out_raise (new_err SessionError ''request already accepted or rejected'')) ms \<and>
    length (filter is_answer (request_calls F (us @ m # ms) (request_new U req))) \<le> 1"
proof -
  let ?s = "request_new U req"
  have later: "request_calls F ms (?s\<lparr>sr_inner := None\<rparr>) =
      map (\<lambda>m. case m of RM_url \<Rightarrow> Out_url (U req) | _ \<Rightarrow> Out_raise already_answered) ms"
    by (simp add: request_calls_spent request_new_def split: request_method.split)
  have eq: "request_calls F (us @ m # ms) ?s = map (\<lambda>_. Out_url (U req)) us @
      (case m of
         RM_accept \<Rightarrow> Out_ok req
       | RM_reject c \<Rightarrow> (case F c of
           Inl e \<Rightarrow> Out_raise (new_err PyValueError (''invalid status code: '' @ e))
         | Inr st \<Rightarrow> Out_respond req st)) #
      map (\<lambda>m. case m of RM_url \<Rightarrow> Out_url (U req) | _ \<Rightarrow> Out_raise already_answered) ms"
    unfolding request_calls_url [OF assms(1)]
    using assms(2) later by (cases m) (auto simp: request_defs request_new_def split: sum.split)
  have none: "filter is_answer (map (\<lambda>_. Out_url (U req)) us) = []"
    "filter is_answer (map (\<lambda>m. case m of RM_url \<Rightarrow> Out_url (U req) | _ \<Rightarrow> Out_raise already_answered) ms) = []"
    by (auto simp: filter_empty_conv is_answer_def split: request_method.split)
  have "length (filter is_answer (request_calls F (us @ m # ms) ?s)) \<le> 1"
    by (simp only: eq filter_append filter.simps none append_Nil split: if_split) simp
  with eq show ?thesis unfolding already_answered_def by (intro conjI)
qed

theorem request_answered_once_witness:
  "request_calls status_ref [RM_url, RM_accept, RM_reject 404] (request_new (\<lambda>n. show_nat n) 7) =
     [Out_url (show_nat 7), Out_ok 7,
      Out_raise (new_err SessionError ''request already accepted or rejected'')]"
  using request_answered_once [of "[RM_url]" RM_accept status_ref "[RM_reject 404]" "\<lambda>n. show_nat n" 7]
  by simp

text \<open>
  C29: a \<^verbatim>\<open>reject\<close> with a status that is no HTTP status loses the request. It raises ValueError, but the
  request is already taken: it is never answered, and every later \<^verbatim>\<open>accept\<close> or \<^verbatim>\<open>reject\<close>, also with a
  valid status, raises SessionError.
\<close>

theorem reject_invalid_status_loses_request:
  assumes "status_doc F" "c < 100 \<or> 1000 \<le> c"
  shows "\<exists>msg. hd (request_calls F (RM_reject c # ms) (request_new U req)) =
      Out_raise (new_err PyValueError msg) \<and>
    (\<forall>o' \<in> set (request_calls F (RM_reject c # ms) (request_new U req)). \<not> is_answer o') \<and>
    (\<forall>i < length ms. ms ! i \<noteq> RM_url \<longrightarrow>
      request_calls F (RM_reject c # ms) (request_new U req) ! Suc i = Out_raise already_answered)"
proof -
  from assms have "\<nexists>st. F c = Inr st" unfolding status_doc_def by (auto simp: not_le not_less)
  then obtain e where e: "F c = Inl e" by (cases "F c") auto
  have eq: "request_calls F (RM_reject c # ms) (request_new U req) =
      Out_raise (new_err PyValueError (''invalid status code: '' @ e)) #
      map (\<lambda>m. case m of RM_url \<Rightarrow> Out_url (U req) | _ \<Rightarrow> Out_raise already_answered) ms"
    using e by (simp add: request_defs request_new_def request_calls_spent split: request_method.split)
  show ?thesis unfolding eq
    by (auto simp: is_answer_def split: request_method.split)
qed

theorem reject_invalid_status_loses_request_witness:
  "\<exists>msg. hd (request_calls status_ref [RM_reject 42, RM_reject 404] (request_new (\<lambda>n. show_nat n) 7)) =
      Out_raise (new_err PyValueError msg) \<and>
    request_calls status_ref [RM_reject 42, RM_reject 404] (request_new (\<lambda>n. show_nat n) 7) ! 1 =
      Out_raise already_answered"
  using reject_invalid_status_loses_request [OF status_ref_doc, of 42 "[RM_reject 404]" "\<lambda>n. show_nat n" 7]
  by auto

text \<open>
  After a rejection the connection is closed from this side. When the response was sent, the
  session is closed with code 0 before the close is awaited, and \<^verbatim>\<open>reject\<close> returns normally; when
  sending fails, no call is made on a session and the exception is a SessionError.
\<close>

lemma reject_closes_session:
  "(case r of
      Inr session \<Rightarrow> reject_future X r = (Inr (), [SCall_close 0 [], SCall_closed])
    | Inl e \<Rightarrow> \<exists>err. reject_future X r = (Inl err, []) \<and> accept_future X r = Inl err \<and>
        catches SessionError err \<and> err_wf err)"
  using srv.caught_by_bases [of SessionError X] srv.emap_wf [of X]
  by (auto simp: reject_future_def accept_future_def split: sum.split)

end
