(* ===== verification/Accept_Queue.thy ===== *)
theory Accept_Queue
  imports Session_Request
begin

text \<open>
  \<^verbatim>\<open>Server::accept\<close> and \<^verbatim>\<open>Server::__anext__\<close> (\<^verbatim>\<open>src/server.rs\<close>, lines 142-163): any number of tasks
  lock the one server and wait for its next request while they have the lock. The server of
  \<^verbatim>\<open>web_transport_quinn\<close> answers with a request, or with none once the endpoint is closed. The
  model interleaves the tasks and records which task was handed which request.
\<close>

section \<open>The tasks\<close>

datatype accept_method = M_accept | M_server_anext

datatype 'req accept_pc =
    A_Idle
  | A_Lock accept_method    \<comment> \<open>awaits the lock\<close>
  | A_Accept accept_method  \<comment> \<open>has the guard, awaits \<^verbatim>\<open>guard.accept()\<close>\<close>
  | A_Drop "py_err + 'req session_request option"
  | A_Done "py_err + 'req session_request option"
  | A_Aborted

text \<open>What each method makes of an answer.\<close>

fun accept_ret :: "('req \<Rightarrow> string) \<Rightarrow> accept_method \<Rightarrow> 'req option \<Rightarrow>
    py_err + 'req session_request option" where
  "accept_ret U M_accept (Some request) = Inr (Some (request_new U request))"
| "accept_ret U M_accept None = Inr None"
| "accept_ret U M_server_anext (Some request) = Inr (Some (request_new U request))"
| "accept_ret U M_server_anext None = Inl stop_async_iteration"

record ('mx, 'req) accept_sys =
  a_inner :: 'mx
  atask :: "nat \<Rightarrow> 'req accept_pc"
  handed :: "(nat \<times> 'req) list"

definition accept_init :: "('mx, 'tok) tokio \<Rightarrow> ('mx, 'req) accept_sys" where
  "accept_init T = \<lparr>a_inner = mutex_new T, atask = (\<lambda>_. A_Idle), handed = []\<rparr>"

datatype 'req accept_event =
    ASpawn nat accept_method
  | AStep nat "'req option option"   \<comment> \<open>the answer of a pending \<^verbatim>\<open>accept()\<close>, if it has one\<close>
  | AAbort nat

text \<open>One atomic step of task \<open>i\<close>.\<close>

definition accept_task_step ::
  "('mx, 'tok) tokio \<Rightarrow> ('req \<Rightarrow> string) \<Rightarrow> nat \<Rightarrow> 'req option option \<Rightarrow> ('mx, 'req) accept_sys \<Rightarrow>
   ('mx, 'req) accept_sys option" where
  "accept_task_step T U i r s =
     (case atask s i of
        A_Lock m \<Rightarrow>
          (case try_lock T (a_inner s) of
             None \<Rightarrow> Some s
           | Some g \<Rightarrow> Some (s\<lparr>a_inner := g, atask := (atask s)(i := A_Accept m)\<rparr>))
      | A_Accept m \<Rightarrow>
          (case r of
             None \<Rightarrow> Some s
           | Some a \<Rightarrow> Some (s\<lparr>atask := (atask s)(i := A_Drop (accept_ret U m a)),
               handed := handed s @ (case a of None \<Rightarrow> [] | Some req \<Rightarrow> [(i, req)])\<rparr>))
      | A_Drop res \<Rightarrow>
          Some (s\<lparr>a_inner := unlock T (a_inner s), atask := (atask s)(i := A_Done res)\<rparr>)
      | _ \<Rightarrow> None)"

definition accept_abort ::
  "('mx, 'tok) tokio \<Rightarrow> nat \<Rightarrow> ('mx, 'req) accept_sys \<Rightarrow> ('mx, 'req) accept_sys option" where
  "accept_abort T i s =
     (case atask s i of
        A_Lock m \<Rightarrow> Some (s\<lparr>atask := (atask s)(i := A_Aborted)\<rparr>)
      | A_Accept m \<Rightarrow>
          Some (s\<lparr>a_inner := unlock T (a_inner s), atask := (atask s)(i := A_Aborted)\<rparr>)
      | _ \<Rightarrow> None)"

fun accept_step ::
  "('mx, 'tok) tokio \<Rightarrow> ('req \<Rightarrow> string) \<Rightarrow> 'req accept_event \<Rightarrow> ('mx, 'req) accept_sys \<Rightarrow>
   ('mx, 'req) accept_sys option" where
  "accept_step T U (ASpawn i m) s =
     (if atask s i = A_Idle then Some (s\<lparr>atask := (atask s)(i := A_Lock m)\<rparr>) else None)"
| "accept_step T U (AStep i r) s = accept_task_step T U i r s"
| "accept_step T U (AAbort i) s = accept_abort T i s"

definition accept_holds :: "'req accept_pc \<Rightarrow> bool" where
  "accept_holds pc = (case pc of A_Accept m \<Rightarrow> True | A_Drop r \<Rightarrow> True | _ \<Rightarrow> False)"

section \<open>The guard protocol\<close>

lemmas accept_defs [step_simps] = accept_task_step_def accept_abort_def

lemmas accept_splits = if_splits option.splits accept_pc.splits

interpretation acc: guard_protocol "tokio_ok T" "accept_step T U" "\<lambda>s. s = accept_init T"
  "\<lambda>s i. accept_holds (atask s i)" "\<lambda>s. locked T (a_inner s)" for T U
proof
  show "\<not> locked T (a_inner s) \<and> \<not> accept_holds (atask s i)"
    if "tokio_ok T" "s = accept_init T" for s i
    using that tokio_new [of T] by (simp add: accept_init_def accept_holds_def)
next
  fix e s t
  assume ok: "tokio_ok T" and st: "accept_step T U e s = Some t"
  let ?i = "case e of ASpawn i _ \<Rightarrow> i | AStep i _ \<Rightarrow> i | AAbort i \<Rightarrow> i"
  have "(\<forall>j. j \<noteq> ?i \<longrightarrow> atask t j = atask s j) \<and>
      (accept_holds (atask t ?i) = accept_holds (atask s ?i) \<and> locked T (a_inner t) = locked T (a_inner s)
       \<or> \<not> accept_holds (atask s ?i) \<and> \<not> locked T (a_inner s) \<and> accept_holds (atask t ?i) \<and> locked T (a_inner t)
       \<or> accept_holds (atask s ?i) \<and> \<not> accept_holds (atask t ?i) \<and>
         (locked T (a_inner s) \<longrightarrow> \<not> locked T (a_inner t)))"
  proof (cases e)
    case (AStep i r)
    with st show ?thesis
      by (cases "atask s i") (auto simp: accept_defs accept_holds_def locked_def
          split: option.splits dest: try_lock_locked [OF ok] unlock_free [OF ok, unfolded locked_def])
  next
    case (AAbort i)
    with st show ?thesis
      by (cases "atask s i") (auto simp: accept_defs accept_holds_def dest: unlock_free [OF ok])
  qed (use st in \<open>auto simp: accept_holds_def split: if_splits\<close>)
  then show "\<exists>i. (\<forall>j. j \<noteq> i \<longrightarrow> accept_holds (atask t j) = accept_holds (atask s j)) \<and>
      (accept_holds (atask t i) = accept_holds (atask s i) \<and> locked T (a_inner t) = locked T (a_inner s)
       \<or> \<not> accept_holds (atask s i) \<and> \<not> locked T (a_inner s) \<and> accept_holds (atask t i) \<and> locked T (a_inner t)
       \<or> accept_holds (atask s i) \<and> \<not> accept_holds (atask t i) \<and>
         (locked T (a_inner s) \<longrightarrow> \<not> locked T (a_inner t)))"
    by (intro exI [of _ ?i]) simp
qed

section \<open>Requests are neither lost nor duplicated\<close>

text \<open>The request in the result of a task.\<close>

definition got :: "'req accept_pc \<Rightarrow> 'req option" where
  "got pc = (case pc of
       A_Drop (Inr (Some sr)) \<Rightarrow> sr_inner sr
     | A_Done (Inr (Some sr)) \<Rightarrow> sr_inner sr
     | _ \<Rightarrow> None)"

definition handed_inv :: "('mx, 'req) accept_sys \<Rightarrow> bool" where
  "handed_inv s \<longleftrightarrow> distinct (map fst (handed s)) \<and> (\<forall>i. got (atask s i) = map_of (handed s) i)"

lemma got_ret: "got (A_Drop (accept_ret U m a)) = a"
  by (cases "(U, m, a)" rule: accept_ret.cases) (simp_all add: got_def request_new_def)

lemma got_done: "got (A_Done r) = got (A_Drop r)"
  by (simp add: got_def)

lemma got_pending [simp]: "got A_Idle = None" "got (A_Lock m) = None" "got (A_Accept m) = None"
  "got A_Aborted = None"
  by (simp_all add: got_def)

lemma handed_inv_step:
  assumes inv: "handed_inv s" and st: "accept_step T U e s = Some t"
  shows "handed_inv t"
proof (cases e)
  case (AStep i r)
  show ?thesis
  proof (cases "\<exists>m a. atask s i = A_Accept m \<and> r = Some a")
    case True
    then obtain m a where m: "atask s i = A_Accept m" "r = Some a" by blast
    with inv have n: "map_of (handed s) i = None" by (auto simp: handed_inv_def dest: spec [of _ i])
    then have "i \<notin> fst ` set (handed s)" by (simp add: map_of_eq_None_iff)
    with inv st AStep m n show ?thesis
      by (auto simp: handed_inv_def accept_defs got_ret map_add_def split: option.split)
  next
    case False
    have "got (atask s i) = map_of (handed s) i" using inv by (simp add: handed_inv_def)
    with False inv st AStep show ?thesis
      by (cases "atask s i") (auto simp: handed_inv_def accept_defs got_done split: option.splits)
  qed
next
  case (ASpawn i m)
  with st have t: "atask s i = A_Idle" "t = s\<lparr>atask := (atask s)(i := A_Lock m)\<rparr>"
    by (auto split: if_splits)
  have "got (atask s i) = map_of (handed s) i" using inv by (simp add: handed_inv_def)
  with inv t show ?thesis by (simp add: handed_inv_def)
next
  case (AAbort i)
  have "got (atask s i) = map_of (handed s) i" using inv by (simp add: handed_inv_def)
  with inv st AAbort show ?thesis
    by (cases "atask s i") (auto simp: handed_inv_def accept_defs)
qed

lemma handed_inv_reach: "reach (accept_step T U) (accept_init T) s \<Longrightarrow> handed_inv s"
proof (erule reach_invariant)
  show "handed_inv (accept_init T)" by (simp add: handed_inv_def accept_init_def)
qed (rule handed_inv_step)

section \<open>Properties\<close>

text \<open>
  C8: concurrent \<^verbatim>\<open>accept\<close> and iteration on one server. At most one task waits on the server at a
  time, and every request the server handed out is in the result of exactly one task, whose
  result it is: none is lost, duplicated or given to two tasks, however the tasks are
  interleaved or cancelled.
\<close>

theorem requests_handed_once:
  assumes "tokio_ok T" "reach (accept_step T U) (accept_init T) s"
  shows "(\<forall>i j. accept_holds (atask s i) \<and> accept_holds (atask s j) \<longrightarrow> i = j) \<and>
    distinct (map fst (handed s)) \<and>
    (\<forall>i req. (i, req) \<in> set (handed s) \<longleftrightarrow> got (atask s i) = Some req)"
proof (intro conjI allI impI)
  have inv: "handed_inv s" by (rule handed_inv_reach [OF assms(2)])
  show "i = j" if "accept_holds (atask s i) \<and> accept_holds (atask s j)" for i j
    using acc.mutual_exclusion [OF assms(1) refl assms(2)] that by blast
  show "distinct (map fst (handed s))" using inv by (simp add: handed_inv_def)
  show "(i, req) \<in> set (handed s) \<longleftrightarrow> got (atask s i) = Some req" for i req
    using inv by (simp add: handed_inv_def)
qed

theorem requests_handed_once_witness:
  "\<exists>s. run (accept_step tokio_bits show_nat) (accept_init tokio_bits)
     [ASpawn 0 M_accept, ASpawn 1 M_server_anext, AStep 1 None, AStep 0 None,
      AStep 1 (Some (Some 42)), AStep 1 None, AStep 0 None, AStep 0 (Some None), AStep 0 None] = Some s \<and>
   handed s = [(1, 42)] \<and> got (atask s 1) = Some 42 \<and> got (atask s 0) = None"
proof -
  let ?es = "[ASpawn 0 M_accept, ASpawn 1 M_server_anext, AStep 1 None, AStep 0 None,
      AStep 1 (Some (Some 42)), AStep 1 None, AStep 0 None, AStep 0 (Some None), AStep 0 None]"
  have "\<exists>s. run (accept_step tokio_bits show_nat) (accept_init tokio_bits) ?es = Some s \<and>
    handed s = [(1, 42)]"
    by (simp add: step_simps accept_init_def)
  then obtain s where s: "run (accept_step tokio_bits show_nat) (accept_init tokio_bits) ?es = Some s"
    "handed s = [(1, 42)]" by blast
  have "got (atask s 0) \<noteq> Some n" for n
    using requests_handed_once [OF tokio_bits_ok run_reach [OF s(1)]] s(2) by auto
  moreover have "got (atask s 1) = Some 42"
    using requests_handed_once [OF tokio_bits_ok run_reach [OF s(1)]] s(2) by auto
  ultimately show ?thesis using s by auto
qed

text \<open>
  Once the endpoint is closed the server answers none: \<^verbatim>\<open>accept\<close> returns None and iteration
  stops; otherwise both give the request unanswered, with its URL.
\<close>

lemma accept_results:
  "accept_ret U M_accept None = Inr None \<and>
   accept_ret U M_server_anext None = Inl \<lparr>exc = PyStopAsyncIteration, args = [], attrs = []\<rparr> \<and>
   (\<exists>sr. accept_ret U m (Some req) = Inr (Some sr) \<and> request_url sr = U req \<and>
     request_calls F [RM_accept] sr = [Out_ok req])"
  by (cases m) (simp_all add: stop_async_iteration_def request_new_def request_defs)

end
