(* ===== verification/Server.thy ===== *)
theory Server
  imports Endpoint Accept_Queue
begin

text \<open>
  \<^verbatim>\<open>Server\<close> of \<^verbatim>\<open>src/server.rs\<close> (lines 13-188): the constructor, from its keyword arguments to the bound
  endpoint, and the methods on the endpoint; \<^verbatim>\<open>accept\<close> and iteration are in the theory of the accept
  queue. What \<^verbatim>\<open>rustls\<close> and \<^verbatim>\<open>quinn\<close> do are parameters, with an error given as the text it displays.
\<close>

section \<open>The constructor\<close>

record 'key server_tls =
  st_certs :: "bytes list"
  st_key :: 'key
  st_alpn_protocols :: "bytes list"

record ('key, 'idle, 'quic, 'ep) server_env =
  private_key_try_from :: "bytes \<Rightarrow> string + 'key"
  server_with_tls13 :: "string + unit"
  with_single_cert :: "bytes list \<Rightarrow> 'key \<Rightarrow> string + unit"
  server_ALPN :: string
  server_idle_timeout_try_from :: "duration \<Rightarrow> string + 'idle"
  quic_server_config :: "'key server_tls \<Rightarrow> string + 'quic"
  endpoint_server :: "'quic \<times> 'idle transport_config \<Rightarrow> socket_addr \<Rightarrow> string + 'ep"
  ep_local_addr :: "'ep \<Rightarrow> string + socket_addr"

record ('mx, 'ep) server =
  sv_inner :: 'mx
  sv_endpoint :: 'ep
  sv_local_addr :: "string \<times> u16"

definition server_tls_config ::
  "('key, 'idle, 'quic, 'ep) server_env \<Rightarrow> bytes list \<Rightarrow> bytes \<Rightarrow> py_err + 'key server_tls" where
  "server_tls_config E certificate_chain private_key =
     res_bind (map_err (\<lambda>e. value_error (''invalid private key: '' @ e))
         (private_key_try_from E private_key)) (\<lambda>key.
     res_bind (map_err (\<lambda>e. value_error (''TLS config error: '' @ e)) (server_with_tls13 E)) (\<lambda>_.
     res_bind (map_err (\<lambda>e. value_error (''certificate error: '' @ e))
         (with_single_cert E certificate_chain key)) (\<lambda>_.
       Inr \<lparr>st_certs = certificate_chain, st_key = key,
            st_alpn_protocols = [as_bytes (server_ALPN E)]\<rparr>)))"

definition server_new ::
  "('mx, 'tok) tokio \<Rightarrow> ('key, 'idle, 'quic, 'ep) server_env \<Rightarrow> bytes list \<Rightarrow> bytes \<Rightarrow> string \<Rightarrow>
   string \<Rightarrow> f64 option \<Rightarrow> f64 option \<Rightarrow> py_err + ('mx, 'ep) server" where
  "server_new T E certificate_chain private_key bind congestion_control max_idle_timeout
       keep_alive_interval =
     res_bind (map_err (\<lambda>e. value_error (''invalid bind address: '' @ e))
         (parse_socket_addr bind)) (\<lambda>addr.
     res_bind (server_tls_config E certificate_chain private_key) (\<lambda>tls_config.
     res_bind (server_transport (server_idle_timeout_try_from E) congestion_control
         max_idle_timeout keep_alive_interval) (\<lambda>transport.
     res_bind (map_err (\<lambda>e. value_error (''QUIC config error: '' @ e))
         (quic_server_config E tls_config)) (\<lambda>quic_config.
     res_bind (map_err (\<lambda>e. value_error (''failed to bind: '' @ e))
         (endpoint_server E (quic_config, transport) addr)) (\<lambda>endpoint.
     res_bind (map_err (\<lambda>e. value_error (''failed to get local addr: '' @ e))
         (ep_local_addr E endpoint)) (\<lambda>local_addr.
       Inr \<lparr>sv_inner = mutex_new T, sv_endpoint = endpoint,
            sv_local_addr = (show_ip (addr_ip local_addr), addr_port local_addr)\<rparr>))))))"

section \<open>The methods\<close>

definition server_close :: "(u64 \<Rightarrow> unit + u64) \<Rightarrow> u64 \<Rightarrow> string \<Rightarrow> (py_err + unit) \<times> endpoint_call list" where
  "server_close from_u64 code reason =
     (case map_err (\<lambda>_. value_error ''code must be less than 2**62'') (from_u64 code) of
        Inl e \<Rightarrow> (Inl e, [])
      | Inr var_code \<Rightarrow> (Inr (), [Ep_close var_code (as_bytes reason)]))"

text \<open>Unlike the client, \<^verbatim>\<open>__aexit__\<close> closes before it makes its future.\<close>

definition server_aexit :: "endpoint_call list \<times> endpoint_call list" where
  "server_aexit = ([Ep_close 0 []], [Ep_wait_idle])"

definition server_wait_closed :: "endpoint_call list" where
  "server_wait_closed = [Ep_wait_idle]"

definition server_local_addr :: "('mx, 'ep) server \<Rightarrow> string \<times> u16" where
  "server_local_addr s = sv_local_addr s"

section \<open>Properties\<close>

lemma server_tls_error: "server_tls_config E cs k = Inl e \<Longrightarrow> exc e = PyValueError"
  by (auto simp: server_tls_config_def res_simps)

lemma server_new_error:
  "server_new T E cs k bind cc mi ka = Inl e \<Longrightarrow> exc e = PyValueError"
  by (auto simp: server_new_def res_simps transports_agree
      dest: server_tls_error transport_error_class)

text \<open>A concrete environment: every step succeeds, and the endpoint is bound to port 4433.\<close>

definition server_env_ref :: "(nat, nat, nat, socket_addr) server_env" where
  "server_env_ref = \<lparr>private_key_try_from = (\<lambda>k. if k = [] then Inl ''empty'' else Inr (length k)),
     server_with_tls13 = Inr (), with_single_cert = (\<lambda>_ _. Inr ()), server_ALPN = ''h3'',
     server_idle_timeout_try_from = idle_timeout_ref, quic_server_config = (\<lambda>_. Inr 0),
     endpoint_server = (\<lambda>_ a. Inr a), ep_local_addr = (\<lambda>a. Inr a)\<rparr>"

text \<open>
  C27: the constructor raises only ValueError, and a server it returns listens where \<^verbatim>\<open>bind\<close> says: the
  endpoint was bound to the parsed address with a TLS configuration of the given chain and key
  that offers exactly the WebTransport ALPN, and the transport settings are those a client would
  build from the same arguments. The host and port it reports as \<^verbatim>\<open>local_addr\<close> parse back to the
  endpoint's address, less the flow information and scope id of an IPv6 address.
\<close>

theorem server_new_binds:
  assumes "server_new T E cs k bind cc mi ka = r"
  shows "case r of
      Inl e \<Rightarrow> exc e = PyValueError
    | Inr s \<Rightarrow> \<exists>addr key tls quic tr a. parse_socket_addr bind = Inr addr \<and>
        private_key_try_from E k = Inr key \<and>
        tls = \<lparr>st_certs = cs, st_key = key, st_alpn_protocols = [as_bytes (server_ALPN E)]\<rparr> \<and>
        quic_server_config E tls = Inr quic \<and>
        client_transport (server_idle_timeout_try_from E) cc mi ka = Inr tr \<and>
        endpoint_server E (quic, tr) addr = Inr (sv_endpoint s) \<and>
        ep_local_addr E (sv_endpoint s) = Inr a \<and>
        (addr_wf a \<longrightarrow>
          parse_socket_addr (host_port a (fst (server_local_addr s)) (snd (server_local_addr s))) =
            Inr (ip_and_port a))"
proof (cases r)
  case (Inl e)
  with assms server_new_error show ?thesis by fastforce
next
  case (Inr s)
  with assms obtain addr key quic tr a where
    *: "parse_socket_addr bind = Inr addr" "private_key_try_from E k = Inr key"
    "quic_server_config E \<lparr>st_certs = cs, st_key = key, st_alpn_protocols = [as_bytes (server_ALPN E)]\<rparr> = Inr quic"
    "client_transport (server_idle_timeout_try_from E) cc mi ka = Inr tr"
    "endpoint_server E (quic, tr) addr = Inr (sv_endpoint s)" "ep_local_addr E (sv_endpoint s) = Inr a"
    "sv_local_addr s = (show_ip (addr_ip a), addr_port a)"
    by (auto simp: server_new_def server_tls_config_def res_simps transports_agree)
  then have "addr_wf a \<longrightarrow> parse_socket_addr (host_port a (fst (server_local_addr s)) (snd (server_local_addr s))) =
      Inr (ip_and_port a)" by (simp add: server_local_addr_def parse_host_port)
  with Inr * show ?thesis by auto
qed

theorem server_new_binds_witness:
  "\<exists>s. server_new tokio_bits server_env_ref [[1]] [2] ''[::]:0'' ''default'' None None = Inr s \<and>
    (\<exists>addr. parse_socket_addr ''[::]:0'' = Inr addr \<and> sv_endpoint s = addr)"
proof -
  have z: "char_of (48 :: nat) = CHR ''0''" by code_simp
  have "parse_socket_addr ''[::]:0'' = Inr (SocketAddrV6 (replicate 8 0) 0 0 0)"
    using parse_wildcard_v6 [of 0] z by (simp add: show_nat.simps)
  then have "\<exists>s. server_new tokio_bits server_env_ref [[1]] [2] ''[::]:0'' ''default'' None None = Inr s"
    by (simp add: server_new_def server_tls_config_def server_env_ref_def server_transport_def
        server_congestion_control_def)
  then obtain s where s: "server_new tokio_bits server_env_ref [[1]] [2] ''[::]:0'' ''default'' None None = Inr s" ..
  from server_new_binds [OF s] s show ?thesis by (auto simp: server_env_ref_def)
qed

end
