(* ===== verification/Module_Init.thy ===== *)
theory Module_Init
  imports Exceptions
begin

text \<open>
  Module initialisation: the lazily built runtime of \<^verbatim>\<open>src/runtime.rs\<close>, the registration of the
  exception classes (\<^verbatim>\<open>register\<close> in \<^verbatim>\<open>src/errors.rs\<close>) and the module function of \<^verbatim>\<open>src/lib.rs\<close>. Building a
  runtime and adding to a Python module are third-party operations, so they are parameters.
\<close>

section \<open>The runtime\<close>




section \<open>Registration\<close>








section \<open>Properties\<close>



















end
