(* ===== verification/Spec2Isabelle.thy ===== *)
theory Spec2Isabelle
  imports Send_Properties Recv_Properties Error_Properties Session_Streams Client Server Module_Init
begin

text \<open>
  A verification library for \<^verbatim>\<open>web_transport\<close>, the Python bindings of a Rust WebTransport stack
  (\<^verbatim>\<open>src/src/*.rs\<close>). File names below are relative to \<^verbatim>\<open>src/src\<close>.

  \<^bold>\<open>The program.\<close> A Python \<^verbatim>\<open>Client\<close> or \<^verbatim>\<open>Server\<close> owns a QUIC endpoint of \<^verbatim>\<open>quinn\<close>. A client connects to a URL and
  a server accepts \<^verbatim>\<open>SessionRequest\<close>s; both give a \<^verbatim>\<open>Session\<close>, which opens and accepts streams. A
  \<^verbatim>\<open>SendStream\<close> or \<^verbatim>\<open>RecvStream\<close> wraps one QUIC stream behind a mutex, with a cancellation token that
  \<^verbatim>\<open>reset\<close> or \<^verbatim>\<open>stop\<close> fires while other operations are pending. Every Rust error is turned into a Python
  exception by \<^verbatim>\<open>errors.rs\<close>. The Rust futures run on a multi-threaded runtime, so the operations of one
  object are interleaved.

  \<^bold>\<open>Theories.\<close>
  \<^item> \<open>Prelude\<close>: machine integers as words, strings as UTF-8 bytes, results as sums, decimal printing.
  \<^item> \<open>Exceptions\<close>: the exception classes, their bases (locale \<open>class_tree\<close>), exception values and the
    constructors that set attributes (\<^verbatim>\<open>errors.rs\<close> 1-105); \<open>err_wf\<close> says which attributes a class declares.
  \<^item> \<open>Utf8_Lossy\<close>: \<^verbatim>\<open>String::from_utf8_lossy\<close>; \<open>Utf8_Encode\<close>: what it accepts is UTF-8 as RFC 3629 defines it.
  \<^item> \<open>Error_Mapping\<close>: the nine \<^verbatim>\<open>map_*\<close> functions (\<^verbatim>\<open>errors.rs\<close> 107-259); locales \<open>error_contract\<close> and
    \<open>api_error_contract\<close>, interpreted on the eight total maps, and \<open>partial_error_contract\<close> for the map of
    \<^verbatim>\<open>readexactly\<close>, which can panic. \<open>Error_Properties\<close>: what callers can rely on.
  \<^item> \<open>Async_Core\<close>: the mutex and the token (record \<open>tokio\<close>, laws \<open>tokio_ok\<close>), runs and reachable states,
    and five protocols as locales: \<open>guard_protocol\<close> (mutual exclusion), \<open>cancel_protocol\<close> (cancellation is
    final), \<open>delivery_protocol\<close> (work left to the holder of the lock is done), \<open>progress_protocol\<close> (a
    cancelled system runs to its end without the peer), \<open>bounded_protocol\<close> (and every run of it is short).
  \<^item> \<open>Send_Stream\<close> (\<^verbatim>\<open>send_stream.rs\<close>) and \<open>Recv_Stream\<close> (\<^verbatim>\<open>recv_stream.rs\<close>): the objects, and every method
    as atomic steps of a task (program counters \<open>send_pc\<close>, \<open>recv_pc\<close>); a run is a list of events, each a
    start of a method, a step of a task with the answer of its pending call, or the drop of a future by
    asyncio. \<open>Send_Safety\<close>, \<open>Recv_Safety\<close>: invariants over every interleaving and the interpretations
    of the protocols; \<open>Send_Properties\<close>, \<open>Recv_Properties\<close>: the properties.
  \<^item> \<open>Seq_Refinement\<close>: the locale \<open>solo_refinement\<close> of systems whose methods, run one after the other, are
    the atomic steps of a specification. \<open>Send_Refinement\<close>, \<open>Recv_Refinement\<close>: the abstract streams
    (\<open>send_spec\<close>, \<open>recv_spec\<close>), the abstraction functions and the interpretations.
  \<^item> \<open>Net_Addr\<close>, \<open>Duration\<close>: what is used of the standard library's socket addresses and durations.
    \<open>Addr_Roundtrip\<close>: every printed IPv4 and IPv6 address parses back. \<open>Float_Secs\<close>: binary64 arithmetic
    rounded to nearest, \<^verbatim>\<open>as_secs_f64\<close> and its accuracy.
  \<^item> \<open>Transport_Config\<close>: the transport settings of both constructors. \<open>Endpoint\<close>: the calls on an endpoint.
  \<^item> \<open>Cert_Verify\<close>: the certificate verifiers of \<^verbatim>\<open>client.rs\<close> 190-332 and the locale \<open>cert_verifier\<close>.
    \<open>Client\<close>: the rest of \<^verbatim>\<open>client.rs\<close>.
  \<^item> \<open>Session_Streams\<close>: the streams a session hands out, composed with the abstract streams.
  \<^item> \<open>Session\<close> (\<^verbatim>\<open>session.rs\<close>), \<open>Session_Request\<close> and \<open>Accept_Queue\<close> (\<^verbatim>\<open>server.rs\<close> 142-163, 190-256), \<open>Server\<close>
    (the rest of \<^verbatim>\<open>server.rs\<close>).
  \<^item> \<open>Module_Init\<close>: \<^verbatim>\<open>runtime.rs\<close>, \<^verbatim>\<open>lib.rs\<close> and \<^verbatim>\<open>register\<close> of \<^verbatim>\<open>errors.rs\<close>.

  \<^bold>\<open>What is a parameter.\<close> \<^verbatim>\<open>quinn\<close>, \<^verbatim>\<open>web_transport_quinn\<close>, \<^verbatim>\<open>tokio\<close>, \<^verbatim>\<open>rustls\<close>, \<^verbatim>\<open>url\<close>, \<^verbatim>\<open>http\<close> and \<^verbatim>\<open>pyo3\<close> are not in the
  repository. Their error types are datatypes with the variants the code matches on; their functions
  are fields of the records \<open>tokio\<close>, \<open>ext\<close>, \<open>client_env\<close>, \<open>server_env\<close>, \<open>crypto_provider\<close> or arguments;
  the answers of QUIC streams are events of a run. What is assumed of them is \<open>tokio_ok\<close>,
  \<open>idle_timeout_doc\<close>, \<open>varint_doc\<close>, \<open>status_doc\<close> and \<open>module_doc\<close>, each documented behaviour with an instance in this
  library.

  \<^bold>\<open>Choices.\<close> \<^verbatim>\<open>usize\<close> is 64 bits wide. Atomic accesses are sequentially consistent. The mutex has no queue:
  whenever it is free, any waiting task may take it, in any order. A lock that \<^verbatim>\<open>tokio\<close> is handing to a
  waiting task counts as free until that task runs; in that window the \<^verbatim>\<open>try_lock\<close> of \<^verbatim>\<open>reset\<close>, \<^verbatim>\<open>stop\<close> and the
  priority setter succeeds in the model and fails in \<^verbatim>\<open>tokio\<close>, where the waiting task then finds the token
  cancelled. Every atomic access is its own step also in the synchronous methods, which may be more
  interleavings than the interpreter lock allows; the two properties that say a race exists use runs in
  which the steps of the synchronous method follow each other. No bound is put on the
  number of tasks or events and no definition uses fuel. \<open>None\<close> in a step function means that the event does
  not fit the state; in \<open>client_new\<close>, \<open>get_runtime\<close> and the outcome \<open>Panicked\<close> a panic is a value.

  \<^bold>\<open>What the properties show.\<close> For the streams: mutual exclusion, that cancellation interrupts every pending
  operation with the right exception and code, that the frame is sent (and the one race in which it is
  not), that nothing hangs after it and every run comes to rest within a bound, that the end of a
  stream is final, and that methods which do not overlap are exactly those of an abstract stream with
  atomic operations. For errors: the exception classes and attributes of every map, and that a close by the
  peer is reported with its source, code and reason (for a transport-level close the type stubs say
  otherwise of the code). For the rest: which settings are accepted and what they mean, which
  certificates a client trusts, that requests are handed to one task and answered once, that addresses
  and round-trip times are reported without loss, and what the constructors and the module initialisation produce.

  \<^bold>\<open>Not modelled.\<close> The \<^verbatim>\<open>__aenter__\<close> and \<^verbatim>\<open>__aiter__\<close> methods (they return the object), the entering of the
  runtime context (\<^verbatim>\<open>enter\<close>, which changes nothing the code can observe), the Python package
  \<^verbatim>\<open>python/web_transport\<close> (stubs and test certificates) and the tests. Floats are modelled for the
  operations that occur: conversion from and to durations, with addition and division of numbers that
  are not negative.

  \<^bold>\<open>Plan.\<close> Fairness of the mutex (a queue of waiting tasks) and the refinement of overlapping methods:
  linearisation points for each operation on a stream.
\<close>

section \<open>Properties that span components\<close>

text \<open>
  Client and server close alike, and both leave an \<^verbatim>\<open>async with\<close> block by closing with code 0 and waiting
  until the endpoint is idle; but the server closes before it makes its future, and the client inside
  it.
\<close>

lemma endpoints_close:
  assumes "varint_doc V"
  shows "client_close V code reason =
      (if code < 2 ^ 62 then (Inr (), [Ep_close code (as_bytes reason)])
       else (Inl (new_err PyValueError ''code must be less than 2**62''), []))"
    and "server_close V = client_close V"
    and "client_aexit = ([], Ep_close 0 [] # client_wait_closed)"
    and "server_aexit = ([Ep_close 0 []], server_wait_closed)"
  using assms by (simp_all add: fun_eq_iff client_close_def server_close_def varint_doc_def client_aexit_def
      server_aexit_def client_wait_closed_def server_wait_closed_def)

text \<open>
  A concrete environment of the client: every step succeeds; the QUIC configuration keeps the TLS
  configuration it was made from.
\<close>

definition client_env_ref ::
  "(unit, nat, bytes list, nat, (unit, nat, bytes list) client_tls, socket_addr) client_env" where
  "client_env_ref = \<lparr>ring_default_provider = provider_ref, client_with_tls13 = (\<lambda>_. Inr ()),
     native_certs = [[1]], native_errors = [], debug_errors = concat, roots_empty = [],
     roots_add = (\<lambda>rs c. rs @ [c]), ALPN = ''h3'', idle_timeout_try_from = idle_timeout_ref,
     quic_client_config = Inr, endpoint_client = Inr\<rparr>"

text \<open>
  C7: a client that was given certificate hashes, with verification on, trusts a server exactly when
  the SHA-256 hash of its certificate is one of them, whatever name, chain and time; given no hash at
  all it trusts no server. With verification off, the hashes are ignored and every certificate is
  accepted.
\<close>

theorem client_trusts_pinned:
  assumes "client_new E (Some hashes) nv cc mi ka = Some (stderr, Inr c)"
    "provider_sha256 (ring_default_provider E) = Some h"
  shows "\<exists>tls. quic_client_config E tls = Inr (cl_quic c) \<and>
    (case ct_verifier tls of
       Dangerous_fingerprints v \<Rightarrow> \<not> nv \<and>
         (\<forall>ee ims name ocsp now. fp_verify_server_cert v ee ims (name :: 'name) ocsp (now :: 'time) = Inr () \<longleftrightarrow>
           h ee \<in> set hashes)
     | Dangerous_noop v \<Rightarrow> nv \<and>
         (\<forall>ee ims name ocsp now. no_verify_server_cert v ee ims (name :: 'name) ocsp (now :: 'time) = Inr ())
     | Root_certificates roots \<Rightarrow> False)"
proof -
  from assms(1) obtain tls where tls: "client_tls_config E (Some hashes) nv = (stderr, Inr tls)"
    "quic_client_config E tls = Inr (cl_quic c)" by (rule client_new_okD)
  then show ?thesis
    using client_tls_verifier [OF tls(1)] assms(2)
    by (intro exI [of _ tls]) (simp add: pinned.accepts_trusted pins_def unverified.accepts_trusted)
qed

theorem client_trusts_pinned_witness:
  "\<exists>stderr c tls. client_new client_env_ref (Some [[6, 3]]) False ''default'' None None = Some (stderr, Inr c) \<and>
    quic_client_config client_env_ref tls = Inr (cl_quic c) \<and>
    (case ct_verifier tls of
       Dangerous_fingerprints v \<Rightarrow>
         fp_verify_server_cert v [1, 2, 3] [] () [] () = Inr () \<and>
         fp_verify_server_cert v [1, 2, 4] [] () [] () \<noteq> Inr ()
     | _ \<Rightarrow> False)"
proof -
  have "\<exists>stderr c. client_new client_env_ref (Some [[6, 3]]) False ''default'' None None = Some (stderr, Inr c)"
    by (simp add: client_new_def client_tls_config_def client_env_ref_def client_transport_def
        client_congestion_control_def parse_any_port)
  then obtain stderr c where
    c: "client_new client_env_ref (Some [[6, 3]]) False ''default'' None None = Some (stderr, Inr c)" by blast
  have "provider_sha256 (ring_default_provider client_env_ref) = Some sum_digest"
    by (simp add: provider_sha256_def provider_ref_def sha256_of_suite_def client_env_ref_def)
  from client_trusts_pinned [OF c this, where ?'name = unit and ?'time = unit] obtain tls where
    "quic_client_config client_env_ref tls = Inr (cl_quic c)"
    "case ct_verifier tls of
       Dangerous_fingerprints v \<Rightarrow> \<not> False \<and>
         (\<forall>ee ims name ocsp now. fp_verify_server_cert v ee ims (name :: unit) ocsp (now :: unit) = Inr () \<longleftrightarrow>
           sum_digest ee \<in> set [[6, 3]])
     | Dangerous_noop v \<Rightarrow> False \<and>
         (\<forall>ee ims name ocsp now. no_verify_server_cert v ee ims (name :: unit) ocsp (now :: unit) = Inr ())
     | Root_certificates roots \<Rightarrow> False" by blast
  with c show ?thesis
    by (intro exI [of _ stderr] exI [of _ c] exI [of _ tls])
      (simp add: sum_digest_def split: server_verifier.splits)
qed

end
